theory Spec2Isabelle
  imports Complex_Main
begin

section \<open>ServerManager: the process singleton coordinator\<close>

text \<open>
  A shallow embedding of \<^verbatim>\<open>packages/neo-one-server-client/src/ServerManager.js\<close>.
  Every \<^verbatim>\<open>async\<close> method becomes a function from the state of the outside world to
  its outcome and the new state. A rejected promise is \<open>Inl error\<close>, a resolved one
  \<open>Inr value\<close>. Whatever the module imports (the file system, the process table, the
  launcher, the terminator, the network client, timers and the clock) is an oracle of
  the environment \<open>env\<close>; the module's own control flow is translated line by line.
\<close>

subsection \<open>Values\<close>

text \<open>
  A JavaScript number, as far as this module meets one: \<open>NaN\<close>, an integer that a
  double holds, or an infinity.
\<close>

datatype jsnum = NaN | Num int | PlusInfinity | MinusInfinity

text \<open>\<^verbatim>\<open>a === b\<close> on numbers: \<open>NaN\<close> equals nothing, itself included.\<close>

fun strictEq :: "jsnum \<Rightarrow> jsnum \<Rightarrow> bool" where
  "strictEq (Num a) (Num b) = (a = b)"
| "strictEq PlusInfinity PlusInfinity = True"
| "strictEq MinusInfinity MinusInfinity = True"
| "strictEq _ _ = False"

text \<open>A thrown value: an \<^verbatim>\<open>Error\<close> object with its \<^verbatim>\<open>code\<close> and \<^verbatim>\<open>message\<close>.\<close>

datatype error = Error (code: string) (message: string)

subsection \<open>\<^verbatim>\<open>parseInt(string, 10)\<close>\<close>

text \<open>
  The Number nearest to a natural number: up to \<open>2^53\<close> the number itself; above, the
  53 leading bits, rounded to nearest with ties to the even one; and none (infinity) from
  \<open>2^1024\<close> on.
\<close>

fun bitLength :: "nat \<Rightarrow> nat" where
  "bitLength n = (if n = 0 then 0 else Suc (bitLength (n div 2)))"

declare bitLength.simps [simp del]

definition roundToDouble :: "nat \<Rightarrow> nat option" where
  "roundToDouble n =
     (if n \<le> 2 ^ 53 then Some n
      else
        (let e = bitLength n - 53;
             q = n div 2 ^ e;
             r = n mod 2 ^ e;
             half = 2 ^ (e - 1);
             q' = (if half < r \<or> (r = half \<and> odd q) then q + 1 else q);
             v = q' * 2 ^ e
         in if 1024 < bitLength v then None else Some v))"

definition toNumber :: "int \<Rightarrow> jsnum" where
  "toNumber i =
     (case roundToDouble (nat \<bar>i\<bar>) of
        None \<Rightarrow> if i < 0 then MinusInfinity else PlusInfinity
      | Some m \<Rightarrow> Num (if i < 0 then - int m else int m))"

text \<open>
  The built-in, by the steps of ECMAScript's \<^verbatim>\<open>parseInt\<close> at radix 10: leading white
  space is skipped, one sign is read, the longest prefix of decimal digits is the value,
  and there is no value (\<open>NaN\<close>) when that prefix is empty. Nothing after the digits is
  looked at. The result is the Number for the signed value. A string is the sequence of
  its code units (those below 256).
\<close>

definition isStrWhiteSpaceChar :: "char \<Rightarrow> bool" where
  "isStrWhiteSpaceChar c =
     (c \<in> set [CHR 0x09, CHR 0x0A, CHR 0x0B, CHR 0x0C, CHR 0x0D, CHR 0x20, CHR 0xA0])"

definition isDigit :: "char \<Rightarrow> bool" where
  "isDigit c = (c \<in> set ''0123456789'')"

definition digitValue :: "char \<Rightarrow> int" where
  "digitValue c = int (of_char c) - 48"

fun mathInt :: "int \<Rightarrow> string \<Rightarrow> int" where
  "mathInt acc [] = acc"
| "mathInt acc (c # cs) = mathInt (10 * acc + digitValue c) cs"

definition parseInt10 :: "string \<Rightarrow> jsnum" where
  "parseInt10 inputString =
     (let S = dropWhile isStrWhiteSpaceChar inputString;
          sign = (if S \<noteq> [] \<and> hd S = CHR ''-'' then - 1 else 1);
          S' = (if S \<noteq> [] \<and> (hd S = CHR ''+'' \<or> hd S = CHR ''-'') then tl S else S);
          Z = takeWhile isDigit S'
      in if Z = [] then NaN else toNumber (sign * mathInt 0 Z))"

text \<open>
  \<^verbatim>\<open>parseInt\<close> as a call that could throw, so that the \<^verbatim>\<open>try\<close>/\<^verbatim>\<open>catch\<close> around it
  has both its branches in the model. On a string it never throws.
\<close>

definition parseInt :: "string \<Rightarrow> error + jsnum" where
  "parseInt pidContents = Inr (parseInt10 pidContents)"

text \<open>
  \<^verbatim>\<open>`${pid}`\<close>: the text of a number; for an integer below \<open>10^21\<close> in magnitude, its
  decimal digits.
\<close>

fun digitsOf :: "nat \<Rightarrow> string" where
  "digitsOf n =
     (if n < 10 then [''0123456789'' ! n]
      else digitsOf (n div 10) @ [''0123456789'' ! (n mod 10)])"

declare digitsOf.simps [simp del]

fun toString :: "jsnum \<Rightarrow> string" where
  "toString NaN = ''NaN''"
| "toString PlusInfinity = ''Infinity''"
| "toString MinusInfinity = ''-Infinity''"
| "toString (Num i) =
     (if i < 0 then CHR ''-'' # digitsOf (nat (- i)) else digitsOf (nat i))"

subsection \<open>The outside world\<close>

text \<open>
  An entry of the file system: missing; a file with its text; one that cannot be read;
  or a file with its text that can be read but not removed (removing it fails with the
  error given).
\<close>

datatype entry = Absent | Content string | Unreadable error | Protected string error

text \<open>What the module does to its collaborators, in the order it does it.\<close>

datatype callback = Callback string

datatype event =
    FsReadFile string
  | FsRemove string
  | FsEnsureDir string
  | FsWriteFile string string
  | ClientGetVersion nat
  | ClientWait nat nat
  | KillProcess jsnum
  | Spawn string "string list" bool string
  | Unref jsnum
  | Called callback
  | SetTimeout nat

text \<open>
  The state: the clock \<^verbatim>\<open>Date.now()\<close> in milliseconds, the file system, how many
  answers of the network client have been used, and the log of effects. The clock is read
  only inside the three loops of the module, and what a loop waits for is a call of the
  network client or a timer: these are the operations that take time.
\<close>

record world =
  nowMs :: nat
  files :: "string \<Rightarrow> entry"
  versionCalls :: nat
  waitCalls :: nat
  log :: "event list"

text \<open>
  How \<^verbatim>\<open>utils.nowSeconds\<close> reads the clock. The function belongs to \<^verbatim>\<open>@neo-one/utils\<close>
  and is not among the sources, so its reading is a parameter: the time in seconds as
  it is, or in whole seconds, \<open>\<lfloor>(ms + r) / 1000\<rfloor>\<close> for an offset \<open>r\<close> (0 cuts the
  fraction off, 500 rounds to the nearest second as \<^verbatim>\<open>Math.round\<close> does).
\<close>

datatype clock = Exact | Whole nat

text \<open>
  The environment: \<^verbatim>\<open>process.pid\<close>; the reading of the clock; the process table,
  asked at a time for an identifier (\<^verbatim>\<open>is-running\<close>); for each port and each call in
  turn, how long \<^verbatim>\<open>client.getVersion()\<close> and \<^verbatim>\<open>client.wait(ms)\<close> take and how they
  end; how late a timer set at a given time fires; the identifier of the child that
  \<^verbatim>\<open>cross-spawn\<close> starts; and the error, if any, with which terminating a process
  fails. Reading and removing the lock file, the version query, the probe and the
  terminator can fail; \<^verbatim>\<open>fs.ensureDir\<close>, \<^verbatim>\<open>fs.writeFile\<close>, \<^verbatim>\<open>spawn\<close>, \<^verbatim>\<open>unref\<close> and the
  callback return.
\<close>

record env =
  processPid :: int
  clock :: clock
  isRunningAt :: "nat \<Rightarrow> jsnum \<Rightarrow> bool"
  getVersionReply :: "nat \<Rightarrow> nat \<Rightarrow> nat \<times> (error + string)"
  waitReply :: "nat \<Rightarrow> nat \<Rightarrow> nat \<times> error option"
  timerLate :: "nat \<Rightarrow> nat"
  childPid :: jsnum
  killReply :: "jsnum \<Rightarrow> error option"

definition emit :: "event \<Rightarrow> world \<Rightarrow> world" where
  "emit e w = w\<lparr>log := log w @ [e]\<rparr>"

text \<open>\<^verbatim>\<open>utils.nowSeconds()\<close>: the reading of the clock at a time, and now.\<close>

definition secondsAt :: "env \<Rightarrow> nat \<Rightarrow> rat" where
  "secondsAt E t =
     (case clock E of
        Exact \<Rightarrow> of_nat t / 1000
      | Whole r \<Rightarrow> of_nat ((t + r) div 1000))"

definition nowSeconds :: "env \<Rightarrow> world \<Rightarrow> rat" where
  "nowSeconds E w = secondsAt E (nowMs w)"

definition isRunning :: "env \<Rightarrow> world \<Rightarrow> jsnum \<Rightarrow> bool" where
  "isRunning E w pid = isRunningAt E (nowMs w) pid"

text \<open>\<^verbatim>\<open>fs.readFile(path, 'utf8')\<close>: a missing entry is the error \<^verbatim>\<open>ENOENT\<close>.\<close>

definition fs_readFile :: "string \<Rightarrow> world \<Rightarrow> (error + string) \<times> world" where
  "fs_readFile path w =
     (case files w path of
        Absent \<Rightarrow> Inl (Error ''ENOENT'' ''no such file or directory'')
      | Content text \<Rightarrow> Inr text
      | Unreadable error \<Rightarrow> Inl error
      | Protected text error \<Rightarrow> Inr text,
      emit (FsReadFile path) w)"

text \<open>
  \<^verbatim>\<open>fs.remove(path)\<close>: \<open>Some error\<close> is the rejection; then the entry stays. Removing
  what is missing succeeds.
\<close>

definition fs_remove :: "string \<Rightarrow> world \<Rightarrow> error option \<times> world" where
  "fs_remove path w =
     (case files w path of
        Protected text error \<Rightarrow> (Some error, emit (FsRemove path) w)
      | _ \<Rightarrow> (None, emit (FsRemove path) (w\<lparr>files := (files w)(path := Absent)\<rparr>)))"

definition fs_ensureDir :: "string \<Rightarrow> world \<Rightarrow> world" where
  "fs_ensureDir path w = emit (FsEnsureDir path) w"

definition fs_writeFile :: "string \<Rightarrow> string \<Rightarrow> world \<Rightarrow> world" where
  "fs_writeFile path text w =
     emit (FsWriteFile path text) (w\<lparr>files := (files w)(path := Content text)\<rparr>)"

text \<open>
  \<^verbatim>\<open>path.resolve(dataPath, name)\<close> and \<^verbatim>\<open>path.dirname\<close>, for an absolute data path
  in normal form.
\<close>

definition path_resolve :: "string \<Rightarrow> string \<Rightarrow> string" where
  "path_resolve dir name = dir @ ''/'' @ name"

definition path_dirname :: "string \<Rightarrow> string" where
  "path_dirname p = rev (tl (dropWhile (\<lambda>c. c \<noteq> CHR ''/'') (rev p)))"

text \<open>
  \<^verbatim>\<open>await new Promise(resolve => setTimeout(() => resolve(), ms))\<close>: the clock moves
  on by the delay, and by however late the timer is.
\<close>

definition setTimeout :: "env \<Rightarrow> nat \<Rightarrow> world \<Rightarrow> world" where
  "setTimeout E ms w = emit (SetTimeout ms) (w\<lparr>nowMs := nowMs w + ms + timerLate E (nowMs w)\<rparr>)"

text \<open>
  The network client of \<^verbatim>\<open>./Client\<close>, which is not among the sources: each call uses
  the next answer of the environment and takes the time that answer says.
\<close>

definition client_getVersion :: "env \<Rightarrow> nat \<Rightarrow> world \<Rightarrow> (error + string) \<times> world" where
  "client_getVersion E port w =
     (let (took, reply) = getVersionReply E port (versionCalls w)
      in (reply,
          emit (ClientGetVersion port)
            (w\<lparr>nowMs := nowMs w + took, versionCalls := Suc (versionCalls w)\<rparr>)))"

definition client_wait :: "env \<Rightarrow> nat \<Rightarrow> nat \<Rightarrow> world \<Rightarrow> error option \<times> world" where
  "client_wait E port ms w =
     (let (took, reply) = waitReply E port (waitCalls w)
      in (reply,
          emit (ClientWait port ms)
            (w\<lparr>nowMs := nowMs w + took, waitCalls := Suc (waitCalls w)\<rparr>)))"

text \<open>
  Modelled from the spec: \<^verbatim>\<open>killProcess\<close> of \<^verbatim>\<open>@neo-one/server-plugin\<close> is not among
  the sources; it is the Process Terminator, \<^verbatim>\<open>killProcess(pid) -> void\<close>, a
  best-effort termination whose failures (already dead, permission denied) may
  surface. \<open>Some error\<close> is the rejection.
\<close>

definition killProcess :: "env \<Rightarrow> jsnum \<Rightarrow> world \<Rightarrow> error option \<times> world" where
  "killProcess E pid w = (killReply E pid, emit (KillProcess pid) w)"

text \<open>
  \<^verbatim>\<open>spawn(cmd, args, {detached: true, stdio: 'ignore'})\<close>: returns at once with the
  child, of which the module reads \<^verbatim>\<open>child.pid\<close>.
\<close>

definition spawn :: "env \<Rightarrow> string \<Rightarrow> string list \<Rightarrow> bool \<Rightarrow> string \<Rightarrow> world \<Rightarrow> jsnum \<times> world" where
  "spawn E command args detached stdio w = (childPid E, emit (Spawn command args detached stdio) w)"

definition unref :: "jsnum \<Rightarrow> world \<Rightarrow> world" where
  "unref child w = emit (Unref child) w"

definition call :: "callback \<Rightarrow> world \<Rightarrow> world" where
  "call f w = emit (Called f) w"

subsection \<open>The module\<close>

definition SERVER_PID :: string where
  "SERVER_PID = ''server.pid''"

record serverManager =
  dataPath :: string
  serverVersion :: string

record binary =
  cmd :: string
  firstArgs :: "string list"

record started_server =
  pid :: jsnum
  started :: bool

definition pidPath :: "serverManager \<Rightarrow> string" where
  "pidPath this = path_resolve (dataPath this) SERVER_PID"

text \<open>
  \<^verbatim>\<open>getServerPID\<close>: \<open>Inr None\<close> is \<^verbatim>\<open>null\<close>. The second \<^verbatim>\<open>try\<close> guards
  \<^verbatim>\<open>parseInt\<close>, and its \<^verbatim>\<open>catch\<close> removes the file.
\<close>

definition getServerPID :: "serverManager \<Rightarrow> world \<Rightarrow> (error + jsnum option) \<times> world" where
  "getServerPID this w =
     (case fs_readFile (pidPath this) w of
        (Inl error, w1) \<Rightarrow>
          if code error = ''ENOENT'' then (Inr None, w1) else (Inl error, w1)
      | (Inr pidContents, w1) \<Rightarrow>
          (case parseInt pidContents of
             Inr n \<Rightarrow> (Inr (Some n), w1)
           | Inl error \<Rightarrow>
               (case fs_remove (pidPath this) w1 of
                  (Some rejection, w2) \<Rightarrow> (Inl rejection, w2)
                | (None, w2) \<Rightarrow> (Inr None, w2))))"

text \<open>
  \<^verbatim>\<open>isSameVersion\<close>: the loop asks for the version while \<^verbatim>\<open>nowSeconds\<close> reads at most
  5 more than when it began. The first answer that arrives decides; a failed call is
  asked again at once. Nothing in the loop waits, so the loop need not end: \<open>None\<close> is
  the run that never returns.
\<close>

partial_function (option) isSameVersion_loop ::
  "env \<Rightarrow> nat \<Rightarrow> string \<Rightarrow> rat \<Rightarrow> world \<Rightarrow> (bool \<times> world) option" where
  "isSameVersion_loop E port expectedVersion startTime w =
     (if nowSeconds E w - startTime \<le> 5 then
        (case client_getVersion E port w of
           (Inr version, w1) \<Rightarrow> Some (version = expectedVersion, w1)
         | (Inl error, w1) \<Rightarrow> isSameVersion_loop E port expectedVersion startTime w1)
      else Some (False, w))"

declare isSameVersion_loop.simps [code]

definition isSameVersion :: "env \<Rightarrow> nat \<Rightarrow> string \<Rightarrow> world \<Rightarrow> (bool \<times> world) option" where
  "isSameVersion E port expectedVersion w =
     isSameVersion_loop E port expectedVersion (nowSeconds E w) w"

text \<open>
  \<^verbatim>\<open>waitRunning\<close>: every round waits 100 ms, so the 5 seconds run out and the loop
  ends.
\<close>

function waitRunning_loop :: "env \<Rightarrow> jsnum \<Rightarrow> rat \<Rightarrow> world \<Rightarrow> world" where
  "waitRunning_loop E child startTime w =
     (if \<not> isRunning E w child \<and> nowSeconds E w - startTime \<le> 5
      then waitRunning_loop E child startTime (setTimeout E 100 w)
      else w)"
  by pat_completeness auto
termination
proof (relation "measure (\<lambda>(E, child, startTime, w).
         nat (\<lceil>(startTime + 6) * 1000\<rceil> - int (nowMs w)))", goal_cases)
  case 1
  show ?case by simp
next
  case (2 E child startTime w)
  then have within: "secondsAt E (nowMs w) - startTime \<le> 5"
    by (simp add: nowSeconds_def)
  have near: "rat_of_nat (nowMs w) / 1000 < secondsAt E (nowMs w) + 1"
  proof (cases "clock E")
    case Exact
    then show ?thesis by (simp add: secondsAt_def)
  next
    case (Whole r)
    define q where "q = (nowMs w + r) div 1000"
    define m where "m = (nowMs w + r) mod 1000"
    have "q * 1000 + m = nowMs w + r" unfolding q_def m_def by simp
    moreover have "m < 1000" unfolding m_def by simp
    ultimately have "nowMs w < (q + 1) * 1000" by simp
    then have "rat_of_nat (nowMs w) < rat_of_nat ((q + 1) * 1000)"
      by (simp only: of_nat_less_iff)
    then show ?thesis using Whole by (simp add: secondsAt_def q_def)
  qed
  from within near have "rat_of_nat (nowMs w) / 1000 < startTime + 6" by linarith
  then have "rat_of_nat (nowMs w) < (startTime + 6) * 1000"
    by (simp only: pos_divide_less_eq [of 1000] zero_less_numeral)
  then have "int (nowMs w) < \<lceil>(startTime + 6) * 1000\<rceil>"
    by (simp only: less_ceiling_iff of_int_of_nat_eq)
  then show ?case by (simp add: setTimeout_def emit_def)
qed

declare waitRunning_loop.simps [simp del]

definition waitRunning :: "env \<Rightarrow> jsnum \<Rightarrow> world \<Rightarrow> world" where
  "waitRunning E child w = waitRunning_loop E child (nowSeconds E w) w"

text \<open>
  \<^verbatim>\<open>waitReachable\<close>: a failed probe is followed by 100 ms of waiting and remembered
  in \<^verbatim>\<open>lastError\<close>; when \<^verbatim>\<open>nowSeconds\<close> reads more than 30 beyond the start, the
  remembered error, when there is one, is thrown.
\<close>

function waitReachable_loop ::
  "env \<Rightarrow> nat \<Rightarrow> rat \<Rightarrow> error option \<Rightarrow> world \<Rightarrow> (error + unit) \<times> world" where
  "waitReachable_loop E port startTime lastError w =
     (if nowSeconds E w - startTime \<le> 30 then
        (case client_wait E port 1000 w of
           (None, w1) \<Rightarrow> (Inr (), w1)
         | (Some error, w1) \<Rightarrow>
             waitReachable_loop E port startTime (Some error) (setTimeout E 100 w1))
      else (case lastError of Some error \<Rightarrow> (Inl error, w) | None \<Rightarrow> (Inr (), w)))"
  by pat_completeness auto
termination
proof (relation "measure (\<lambda>(E, port, startTime, lastError, w).
         nat (\<lceil>(startTime + 31) * 1000\<rceil> - int (nowMs w)))", goal_cases)
  case 1
  show ?case by simp
next
  case (2 E port startTime lastError w x y x2)
  then have within: "secondsAt E (nowMs w) - startTime \<le> 30"
    by (simp add: nowSeconds_def)
  have near: "rat_of_nat (nowMs w) / 1000 < secondsAt E (nowMs w) + 1"
  proof (cases "clock E")
    case Exact
    then show ?thesis by (simp add: secondsAt_def)
  next
    case (Whole r)
    define q where "q = (nowMs w + r) div 1000"
    define m where "m = (nowMs w + r) mod 1000"
    have "q * 1000 + m = nowMs w + r" unfolding q_def m_def by simp
    moreover have "m < 1000" unfolding m_def by simp
    ultimately have "nowMs w < (q + 1) * 1000" by simp
    then have "rat_of_nat (nowMs w) < rat_of_nat ((q + 1) * 1000)"
      by (simp only: of_nat_less_iff)
    then show ?thesis using Whole by (simp add: secondsAt_def q_def)
  qed
  from within near have "rat_of_nat (nowMs w) / 1000 < startTime + 31" by linarith
  then have "rat_of_nat (nowMs w) < (startTime + 31) * 1000"
    by (simp only: pos_divide_less_eq [of 1000] zero_less_numeral)
  then have "int (nowMs w) < \<lceil>(startTime + 31) * 1000\<rceil>"
    by (simp only: less_ceiling_iff of_int_of_nat_eq)
  moreover have "nowMs w \<le> nowMs y"
    using 2(2) by (simp add: client_wait_def emit_def split: prod.splits)
  ultimately show ?case by (simp add: setTimeout_def emit_def)
qed

declare waitReachable_loop.simps [simp del]

definition waitReachable :: "env \<Rightarrow> nat \<Rightarrow> world \<Rightarrow> (error + unit) \<times> world" where
  "waitReachable E port w = waitReachable_loop E port (nowSeconds E w) None w"

text \<open>
  \<^verbatim>\<open>kill\<close>: the identifier is the one given or else the one on file; without either
  nothing is done. A failure of the terminator is not caught.
\<close>

definition kill :: "env \<Rightarrow> serverManager \<Rightarrow> jsnum option \<Rightarrow> world \<Rightarrow> (error + unit) \<times> world" where
  "kill E this optionsIn w =
     (case (case optionsIn of
              Some p \<Rightarrow> (Inr (Some p), w)
            | None \<Rightarrow> getServerPID this w) of
        (Inl error, w1) \<Rightarrow> (Inl error, w1)
      | (Inr None, w1) \<Rightarrow> (Inr (), w1)
      | (Inr (Some p), w1) \<Rightarrow>
          (case killProcess E p w1 of
             (Some rejection, w2) \<Rightarrow> (Inl rejection, w2)
           | (None, w2) \<Rightarrow> (Inr (), w2)))"

text \<open>
  \<^verbatim>\<open>checkAlive\<close>. Neither \<^verbatim>\<open>kill\<close> nor \<^verbatim>\<open>fs.remove\<close> is guarded: when one of them
  fails, \<^verbatim>\<open>checkAlive\<close> fails with its error and what would have followed is not done.
\<close>

definition checkAlive ::
  "env \<Rightarrow> serverManager \<Rightarrow> nat \<Rightarrow> world \<Rightarrow> ((error + jsnum option) \<times> world) option" where
  "checkAlive E this port w =
     (case getServerPID this w of
        (Inl error, w1) \<Rightarrow> Some (Inl error, w1)
      | (Inr None, w1) \<Rightarrow> Some (Inr None, w1)
      | (Inr (Some p), w1) \<Rightarrow>
          if strictEq p (Num (processPid E)) then Some (Inr (Some p), w1)
          else if isRunning E w1 p then
            (case isSameVersion E port (serverVersion this) w1 of
               None \<Rightarrow> None
             | Some (sameVersion, w2) \<Rightarrow>
                 if sameVersion then Some (Inr (Some p), w2)
                 else
                   (case kill E this (Some p) w2 of
                      (Inl error, w3) \<Rightarrow> Some (Inl error, w3)
                    | (Inr _, w3) \<Rightarrow>
                        (case fs_remove (pidPath this) w3 of
                           (Some rejection, w4) \<Rightarrow> Some (Inl rejection, w4)
                         | (None, w4) \<Rightarrow> Some (Inr None, w4))))
          else
            (case fs_remove (pidPath this) w1 of
               (Some rejection, w4) \<Rightarrow> Some (Inl rejection, w4)
             | (None, w4) \<Rightarrow> Some (Inr None, w4)))"

text \<open>\<^verbatim>\<open>start\<close>.\<close>

definition start ::
  "env \<Rightarrow> serverManager \<Rightarrow> nat \<Rightarrow> binary \<Rightarrow> callback option \<Rightarrow> world
     \<Rightarrow> ((error + started_server) \<times> world) option" where
  "start E this port bin onStart w =
     (case checkAlive E this port w of
        None \<Rightarrow> None
      | Some (Inl error, w1) \<Rightarrow> Some (Inl error, w1)
      | Some (Inr (Some p), w1) \<Rightarrow> Some (Inr \<lparr>pid = p, started = False\<rparr>, w1)
      | Some (Inr None, w1) \<Rightarrow>
          (let w2 = (case onStart of Some f \<Rightarrow> call f w1 | None \<Rightarrow> w1);
               (child, w3) = spawn E (cmd bin) (firstArgs bin @ [''start'', ''server'']) True ''ignore'' w2;
               w4 = unref child w3;
               w5 = waitRunning E child w4
           in (case waitReachable E port w5 of
                 (Inl error, w6) \<Rightarrow> Some (Inl error, w6)
               | (Inr _, w6) \<Rightarrow> Some (Inr \<lparr>pid = child, started = True\<rparr>, w6))))"

text \<open>\<^verbatim>\<open>writePID\<close>, the one place of the module that writes the lock file.\<close>

definition writePID :: "serverManager \<Rightarrow> jsnum \<Rightarrow> world \<Rightarrow> world" where
  "writePID this p w =
     fs_writeFile (pidPath this) (toString p) (fs_ensureDir (path_dirname (pidPath this)) w)"

subsection \<open>What a run did\<close>

text \<open>
  Read off the log: the processes handed to the Process Terminator, the launches, the
  callbacks called and the files written, each in order.
\<close>

definition killed :: "world \<Rightarrow> jsnum list" where
  "killed w = [p. KillProcess p \<leftarrow> log w]"

definition spawned :: "world \<Rightarrow> (string \<times> string list \<times> bool \<times> string) list" where
  "spawned w = [(c, a, d, s). Spawn c a d s \<leftarrow> log w]"

definition called :: "world \<Rightarrow> callback list" where
  "called w = [f. Called f \<leftarrow> log w]"

definition written :: "world \<Rightarrow> (string \<times> string) list" where
  "written w = [(p, t). FsWriteFile p t \<leftarrow> log w]"

text \<open>
  The time at which the version loop, entered in state \<open>w\<close>, sends its query number
  \<open>i\<close> (counted from 0) when the queries before it have failed: each query is sent as
  soon as the one before has come back.
\<close>

definition versionAskedAt :: "env \<Rightarrow> nat \<Rightarrow> world \<Rightarrow> nat \<Rightarrow> nat" where
  "versionAskedAt E port w i =
     nowMs w + sum_list (map (\<lambda>j. fst (getVersionReply E port (versionCalls w + j))) [0..<i])"

text \<open>
  The time after \<open>i\<close> timers of 100 ms in a row, the first set at time \<open>t\<close>: the times
  at which the liveness wait, entered at \<open>t\<close>, looks at the process table.
\<close>

fun timerAt :: "env \<Rightarrow> nat \<Rightarrow> nat \<Rightarrow> nat" where
  "timerAt E t 0 = t"
| "timerAt E t (Suc i) = timerAt E (t + 100 + timerLate E t) i"

text \<open>
  The time at which the reachability wait, entered at time \<open>t\<close> when \<open>c\<close> probes have
  been made before, sends its probe number \<open>i\<close> (counted from 0) when the probes before
  it have failed: a failed probe is followed by a timer of 100 ms, then the next is sent.
\<close>

fun probeAskedAt :: "env \<Rightarrow> nat \<Rightarrow> nat \<Rightarrow> nat \<Rightarrow> nat \<Rightarrow> nat" where
  "probeAskedAt E port c t 0 = t"
| "probeAskedAt E port c t (Suc i) =
     (let back = t + fst (waitReply E port c)
      in probeAskedAt E port (Suc c) (back + 100 + timerLate E back) i)"

text \<open>
  The state of the version loop when \<open>n\<close> queries have failed, and the loop from there.
\<close>

definition afterQueries :: "env \<Rightarrow> nat \<Rightarrow> world \<Rightarrow> nat \<Rightarrow> world" where
  "afterQueries E port w n =
     w\<lparr>nowMs := versionAskedAt E port w n, versionCalls := versionCalls w + n,
       log := log w @ replicate n (ClientGetVersion port)\<rparr>"

text \<open>
  The state of the liveness wait when \<open>j\<close> timers have fired, and of the reachability
  wait when \<open>k\<close> probes have failed and their timers have fired.
\<close>

definition afterTimers :: "env \<Rightarrow> world \<Rightarrow> nat \<Rightarrow> world" where
  "afterTimers E w j =
     w\<lparr>nowMs := timerAt E (nowMs w) j, log := log w @ replicate j (SetTimeout 100)\<rparr>"

definition afterProbes :: "env \<Rightarrow> nat \<Rightarrow> world \<Rightarrow> nat \<Rightarrow> world" where
  "afterProbes E port w k =
     w\<lparr>nowMs := probeAskedAt E port (waitCalls w) (nowMs w) k, waitCalls := waitCalls w + k,
       log := log w @ concat (replicate k [ClientWait port 1000, SetTimeout 100])\<rparr>"

subsection \<open>Scenarios\<close>

text \<open>
  A coordinator on \<^verbatim>\<open>/data\<close> expecting version \<^verbatim>\<open>1.4.0\<close>, and a world at time 0
  whose only file is the lock file with a given text.
\<close>

abbreviation manager :: serverManager where
  "manager \<equiv> \<lparr>dataPath = ''/data'', serverVersion = ''1.4.0''\<rparr>"

abbreviation lockFileWith :: "string \<Rightarrow> world" where
  "lockFileWith text \<equiv>
     \<lparr>nowMs = 0, files = (\<lambda>_. Absent)(''/data/server.pid'' := Content text),
      versionCalls = 0, waitCalls = 0, log = []\<rparr>"

abbreviation noLockFile :: world where
  "noLockFile \<equiv> \<lparr>nowMs = 0, files = (\<lambda>_. Absent), versionCalls = 0, waitCalls = 0, log = []\<rparr>"

text \<open>
  This process is 100, process 4242 is alive, and a launch gives process 5000, alive
  from then on. The clock is read to the nearest second. The first version query is
  refused after 1.2 seconds; every later one answers with the given version. The first
  probe times out; every later one succeeds. Terminating a process succeeds.
\<close>

abbreviation host :: "string \<Rightarrow> env" where
  "host version \<equiv>
     \<lparr>processPid = 100,
      clock = Whole 500,
      isRunningAt = (\<lambda>t p. p = Num 4242 \<or> p = Num 5000),
      getVersionReply = (\<lambda>port i.
         if i = 0 then (1200, Inl (Error ''ECONNREFUSED'' ''connection refused''))
         else (30, Inr version)),
      waitReply = (\<lambda>port i.
         if i = 0 then (1000, Some (Error ''ETIMEDOUT'' ''timed out'')) else (20, None)),
      timerLate = (\<lambda>t. 3),
      childPid = Num 5000,
      killReply = (\<lambda>p. None)\<rparr>"




section \<open>Properties\<close>

subsection \<open>Effects of the primitive operations\<close>

lemma emit_simps [simp]:
  "log (emit e w) = log w @ [e]"
  "files (emit e w) = files w"
  "nowMs (emit e w) = nowMs w"
  "versionCalls (emit e w) = versionCalls w"
  "waitCalls (emit e w) = waitCalls w"
  by (simp_all add: emit_def)

lemma client_getVersion_simps [simp]:
  "fst (client_getVersion E port w) = snd (getVersionReply E port (versionCalls w))"
  "nowMs (snd (client_getVersion E port w)) = nowMs w + fst (getVersionReply E port (versionCalls w))"
  "versionCalls (snd (client_getVersion E port w)) = Suc (versionCalls w)"
  "waitCalls (snd (client_getVersion E port w)) = waitCalls w"
  "files (snd (client_getVersion E port w)) = files w"
  "log (snd (client_getVersion E port w)) = log w @ [ClientGetVersion port]"
  by (simp_all add: client_getVersion_def split: prod.splits)

lemma client_wait_simps [simp]:
  "fst (client_wait E port ms w) = snd (waitReply E port (waitCalls w))"
  "nowMs (snd (client_wait E port ms w)) = nowMs w + fst (waitReply E port (waitCalls w))"
  "versionCalls (snd (client_wait E port ms w)) = versionCalls w"
  "waitCalls (snd (client_wait E port ms w)) = Suc (waitCalls w)"
  "files (snd (client_wait E port ms w)) = files w"
  "log (snd (client_wait E port ms w)) = log w @ [ClientWait port ms]"
  by (simp_all add: client_wait_def split: prod.splits)

lemma setTimeout_simps [simp]:
  "nowMs (setTimeout E ms w) = nowMs w + ms + timerLate E (nowMs w)"
  "versionCalls (setTimeout E ms w) = versionCalls w"
  "waitCalls (setTimeout E ms w) = waitCalls w"
  "files (setTimeout E ms w) = files w"
  "log (setTimeout E ms w) = log w @ [SetTimeout ms]"
  by (simp_all add: setTimeout_def)

lemma nowSeconds_emit [simp]: "nowSeconds E (emit e w) = nowSeconds E w"
  by (simp add: nowSeconds_def)

lemma isRunning_emit [simp]: "isRunning E (emit e w) p = isRunning E w p"
  by (simp add: isRunning_def)

subsection \<open>The reading of the clock\<close>

text \<open>
  Whatever the reading, it does not go back, it differs by at most \<open>B\<close> between two
  times at most \<open>B\<close> seconds apart, and by more than \<open>B\<close> between two times at least
  \<open>B + 1\<close> seconds apart.
\<close>

lemma secondsAt_mono: "t \<le> t' \<Longrightarrow> secondsAt E t \<le> secondsAt E t'"
proof (cases "clock E")
  case Exact
  assume "t \<le> t'"
  then have "rat_of_nat t \<le> rat_of_nat t'" by (simp only: of_nat_le_iff)
  then show ?thesis using Exact by (simp add: secondsAt_def)
next
  case (Whole r)
  assume "t \<le> t'"
  then have "(t + r) div 1000 \<le> (t' + r) div 1000" by (intro div_le_mono) simp
  then have "rat_of_nat ((t + r) div 1000) \<le> rat_of_nat ((t' + r) div 1000)"
    by (simp only: of_nat_le_iff)
  then show ?thesis using Whole by (simp add: secondsAt_def)
qed

lemma secondsAt_within:
  assumes "t' \<le> t + 1000 * B"
  shows "secondsAt E t' - secondsAt E t \<le> of_nat B"
proof (cases "clock E")
  case Exact
  from assms have "rat_of_nat t' \<le> rat_of_nat (t + 1000 * B)" by (simp only: of_nat_le_iff)
  then show ?thesis using Exact by (simp add: secondsAt_def)
next
  case (Whole r)
  from assms have "(t' + r) div 1000 \<le> (t + r + 1000 * B) div 1000"
    by (intro div_le_mono) simp
  also have "\<dots> = (t + r) div 1000 + B" by simp
  finally have "rat_of_nat ((t' + r) div 1000) \<le> rat_of_nat ((t + r) div 1000 + B)"
    by (simp only: of_nat_le_iff)
  then show ?thesis using Whole by (simp add: secondsAt_def)
qed

lemma secondsAt_over:
  assumes "t + 1000 * (B + 1) \<le> t'"
  shows "of_nat B < secondsAt E t' - secondsAt E t"
proof (cases "clock E")
  case Exact
  from assms have "rat_of_nat (t + 1000 * (B + 1)) \<le> rat_of_nat t'" by (simp only: of_nat_le_iff)
  then show ?thesis using Exact by (simp add: secondsAt_def)
next
  case (Whole r)
  from assms have "(t + r + 1000 * (B + 1)) div 1000 \<le> (t' + r) div 1000"
    by (intro div_le_mono) simp
  moreover have "(t + r + 1000 * (B + 1)) div 1000 = (t + r) div 1000 + B + 1" by simp
  ultimately have "(t + r) div 1000 + B < (t' + r) div 1000" by linarith
  then have "rat_of_nat ((t + r) div 1000 + B) < rat_of_nat ((t' + r) div 1000)"
    by (simp only: of_nat_less_iff)
  then show ?thesis using Whole by (simp add: secondsAt_def)
qed

lemma within_5: "t' \<le> t + 5000 \<Longrightarrow> secondsAt E t' - secondsAt E t \<le> 5"
  using secondsAt_within [of t' t 5 E] by simp

lemma over_5: "t + 6000 \<le> t' \<Longrightarrow> 5 < secondsAt E t' - secondsAt E t"
  using secondsAt_over [of t 5 t' E] by simp

lemma within_30: "t' \<le> t + 30000 \<Longrightarrow> secondsAt E t' - secondsAt E t \<le> 30"
  using secondsAt_within [of t' t 30 E] by simp

lemma over_30: "t + 31000 \<le> t' \<Longrightarrow> 30 < secondsAt E t' - secondsAt E t"
  using secondsAt_over [of t 30 t' E] by simp

subsection \<open>Reading the lock file\<close>

lemma getServerPID_unfold:
  "getServerPID this w =
     (case files w (pidPath this) of
        Absent \<Rightarrow> Inr None
      | Content text \<Rightarrow> Inr (Some (parseInt10 text))
      | Unreadable error \<Rightarrow> if code error = ''ENOENT'' then Inr None else Inl error
      | Protected text error \<Rightarrow> Inr (Some (parseInt10 text)),
      emit (FsReadFile (pidPath this)) w)"
  by (simp add: getServerPID_def fs_readFile_def parseInt_def split: entry.splits)

lemma getServerPID_parsed:
  "fst (fs_readFile (pidPath this) w) = Inr text \<Longrightarrow>
   getServerPID this w = (Inr (Some (parseInt10 text)), emit (FsReadFile (pidPath this)) w)"
  by (simp add: getServerPID_def fs_readFile_def parseInt_def split: entry.splits)

lemma getServerPID_keeps_files: "files (snd (getServerPID this w)) = files w"
  by (simp add: getServerPID_unfold)

lemma pidPath_manager: "pidPath manager = ''/data/server.pid''"
  by (simp add: pidPath_def path_resolve_def SERVER_PID_def)

text \<open>
  C1. The claim is that a lock file whose text is no integer makes \<^verbatim>\<open>getServerPID\<close>
  delete the file and return \<^verbatim>\<open>null\<close>. The code does neither: \<^verbatim>\<open>parseInt\<close> does not
  throw on such a text, it returns \<open>NaN\<close>, so the \<^verbatim>\<open>catch\<close> that removes the file
  never runs (\<open>getServerPID_keeps_files\<close>: no lock file is ever removed by
  \<^verbatim>\<open>getServerPID\<close>). With the lock file holding \<^verbatim>\<open>abc\<close>, \<^verbatim>\<open>getServerPID\<close> returns
  \<open>NaN\<close> and does nothing but read the file, which stays as it was.
\<close>

theorem getServerPID_garbled_is_NaN:
  "getServerPID manager (lockFileWith ''abc'') =
     (Inr (Some NaN), (lockFileWith ''abc'')\<lparr>log := [FsReadFile ''/data/server.pid'']\<rparr>)"
  by (simp add: getServerPID_unfold pidPath_manager parseInt10_def isStrWhiteSpaceChar_def
        isDigit_def emit_def)

text \<open>
  C9. When reading the lock file fails, \<^verbatim>\<open>getServerPID\<close> returns \<^verbatim>\<open>null\<close> for the
  error \<^verbatim>\<open>ENOENT\<close> (file not found) and throws every other error as it got it. In
  both cases it has only read the file.
\<close>

theorem getServerPID_read_error:
  assumes "fst (fs_readFile (pidPath this) w) = Inl e"
  shows "getServerPID this w =
           (if code e = ''ENOENT'' then Inr None else Inl e, emit (FsReadFile (pidPath this)) w)"
  using assms by (simp add: getServerPID_def fs_readFile_def split: entry.splits)

theorem getServerPID_read_error_witness:
  "getServerPID manager noLockFile = (Inr None, emit (FsReadFile (pidPath manager)) noLockFile)
   \<and> getServerPID manager
        (noLockFile\<lparr>files := (\<lambda>_. Unreadable (Error ''EACCES'' ''permission denied''))\<rparr>)
      = (Inl (Error ''EACCES'' ''permission denied''),
         emit (FsReadFile (pidPath manager))
           (noLockFile\<lparr>files := (\<lambda>_. Unreadable (Error ''EACCES'' ''permission denied''))\<rparr>))"
  using getServerPID_read_error [of manager noLockFile "Error ''ENOENT'' ''no such file or directory''"]
    getServerPID_read_error [of manager
       "noLockFile\<lparr>files := (\<lambda>_. Unreadable (Error ''EACCES'' ''permission denied''))\<rparr>"
       "Error ''EACCES'' ''permission denied''"]
  by (simp add: fs_readFile_def)

subsection \<open>The lenient parse\<close>





lemma mathInt_snoc: "mathInt acc (xs @ [c]) = 10 * mathInt acc xs + digitValue c"
  by (induction xs arbitrary: acc) auto

lemma digitValue_nth: "d < 10 \<Longrightarrow> digitValue (''0123456789'' ! d) = int d"
proof -
  assume "d < 10"
  then consider "d = 0" | "d = 1" | "d = 2" | "d = 3" | "d = 4" | "d = 5" | "d = 6" | "d = 7"
    | "d = 8" | "d = 9"
    by atomize_elim presburger
  then show ?thesis by cases (simp_all add: digitValue_def)
qed

lemma mathInt_digitsOf: "mathInt 0 (digitsOf n) = int n"
proof (induction n rule: digitsOf.induct)
  case (1 n)
  show ?case
  proof (cases "n < 10")
    case True
    then show ?thesis by (subst digitsOf.simps) (simp add: digitValue_nth)
  next
    case False
    then have "mathInt 0 (digitsOf (n div 10)) = int (n div 10)" using 1 by simp
    moreover have "10 * int (n div 10) + int (n mod 10) = int n" by presburger
    ultimately show ?thesis using False
      by (subst digitsOf.simps) (simp add: mathInt_snoc digitValue_nth)
  qed
qed






lemma parseInt10_4242: "parseInt10 ''4242'' = Num 4242"
  by (simp add: parseInt10_def isStrWhiteSpaceChar_def isDigit_def digitValue_def toNumber_def
        roundToDouble_def)

subsection \<open>\<^verbatim>\<open>checkAlive\<close>\<close>

text \<open>
  C2. When the identifier on file is the identifier of the calling process,
  \<^verbatim>\<open>checkAlive\<close> returns it and has done nothing but read the lock file: no answer of
  the network client has been used, neither a version query nor a probe.
\<close>

theorem checkAlive_self:
  assumes "files w (pidPath this) = Content text"
    and "parseInt10 text = Num (processPid E)"
  shows "\<exists>w'. checkAlive E this port w = Some (Inr (Some (Num (processPid E))), w')
           \<and> versionCalls w' = versionCalls w \<and> waitCalls w' = waitCalls w
           \<and> log w' = log w @ [FsReadFile (pidPath this)]"
  using assms by (simp add: checkAlive_def getServerPID_unfold)

theorem checkAlive_self_witness:
  "\<exists>w'. checkAlive (host ''1.4.0'') manager 8000 (lockFileWith ''100'') = Some (Inr (Some (Num 100)), w')
           \<and> versionCalls w' = 0 \<and> waitCalls w' = 0
           \<and> log w' = [FsReadFile ''/data/server.pid'']"
  using checkAlive_self [of "lockFileWith ''100''" manager "''100''" "host ''1.4.0''" 8000]
  by (simp add: pidPath_manager parseInt10_def isStrWhiteSpaceChar_def isDigit_def digitValue_def
        toNumber_def roundToDouble_def)

subsection \<open>The version loop\<close>

lemma isSameVersion_loop_effects:
  assumes "isSameVersion_loop E port ev st w = Some r"
  shows "files (snd r) = files w \<and> waitCalls (snd r) = waitCalls w \<and>
         (\<exists>n. log (snd r) = log w @ replicate n (ClientGetVersion port))"
proof (rule isSameVersion_loop.raw_induct
    [where P = "\<lambda>E port ev st w r. files (snd r) = files w \<and> waitCalls (snd r) = waitCalls w \<and>
         (\<exists>n. log (snd r) = log w @ replicate n (ClientGetVersion port))", OF _ assms])
  fix loop :: "env \<Rightarrow> nat \<Rightarrow> string \<Rightarrow> rat \<Rightarrow> world \<Rightarrow> (bool \<times> world) option"
  fix E port ev st w r
  assume IH: "\<And>E port ev st w r. loop E port ev st w = Some r \<Longrightarrow>
      files (snd r) = files w \<and> waitCalls (snd r) = waitCalls w \<and>
         (\<exists>n. log (snd r) = log w @ replicate n (ClientGetVersion port))"
  assume body: "(if nowSeconds E w - st \<le> 5
      then case client_getVersion E port w of
           (Inl error, w1) \<Rightarrow> loop E port ev st w1
           | (Inr version, w1) \<Rightarrow> Some (version = ev, w1)
      else Some (False, w)) = Some r"
  show "files (snd r) = files w \<and> waitCalls (snd r) = waitCalls w \<and>
         (\<exists>n. log (snd r) = log w @ replicate n (ClientGetVersion port))"
  proof (cases "nowSeconds E w - st \<le> 5")
    case False
    with body have "r = (False, w)" by simp
    then show ?thesis by simp
  next
    case True
    obtain a w1 where cg: "client_getVersion E port w = (a, w1)" by (cases "client_getVersion E port w")
    have w1: "files w1 = files w" "waitCalls w1 = waitCalls w" "log w1 = log w @ [ClientGetVersion port]"
      using client_getVersion_simps(4,5,6)[of E port w] cg by simp_all
    show ?thesis
    proof (cases a)
      case (Inr v)
      with body True cg have r: "r = (v = ev, w1)" by simp
      have "log w1 = log w @ replicate 1 (ClientGetVersion port)" using w1 by simp
      then show ?thesis unfolding r snd_conv using w1 by blast
    next
      case (Inl e)
      with body True cg have "loop E port ev st w1 = Some r" by simp
      from IH[OF this] obtain n where r: "files (snd r) = files w1" "waitCalls (snd r) = waitCalls w1"
        "log (snd r) = log w1 @ replicate n (ClientGetVersion port)"
        by blast
      then have "log (snd r) = log w @ replicate (Suc n) (ClientGetVersion port)"
        using w1 by (simp add: replicate_app_Cons_same)
      then show ?thesis using w1 r by metis
    qed
  qed
qed

lemma versionAskedAt_0 [simp]: "versionAskedAt E port w 0 = nowMs w"
  by (simp add: versionAskedAt_def)

lemma versionAskedAt_Suc:
  "versionAskedAt E port w (Suc n) =
     versionAskedAt E port w n + fst (getVersionReply E port (versionCalls w + n))"
  by (simp add: versionAskedAt_def)

lemma versionAskedAt_mono: "i \<le> n \<Longrightarrow> versionAskedAt E port w i \<le> versionAskedAt E port w n"
  by (induction n) (auto simp: versionAskedAt_Suc le_Suc_eq)

lemma versionAskedAt_emit [simp]: "versionAskedAt E port (emit e w) i = versionAskedAt E port w i"
  by (simp add: versionAskedAt_def)

lemma afterQueries_simps [simp]:
  "afterQueries E port w 0 = w"
  "nowMs (afterQueries E port w n) = versionAskedAt E port w n"
  "versionCalls (afterQueries E port w n) = versionCalls w + n"
  "waitCalls (afterQueries E port w n) = waitCalls w"
  "files (afterQueries E port w n) = files w"
  "log (afterQueries E port w n) = log w @ replicate n (ClientGetVersion port)"
  by (simp_all add: afterQueries_def)

lemma isSameVersion_loop_failed:
  assumes "secondsAt E (versionAskedAt E port w n) - st \<le> 5"
    and "isl (snd (getVersionReply E port (versionCalls w + n)))"
  shows "isSameVersion_loop E port ev st (afterQueries E port w n) =
         isSameVersion_loop E port ev st (afterQueries E port w (Suc n))"
proof -
  from assms(2) obtain d e where fail: "getVersionReply E port (versionCalls w + n) = (d, Inl e)"
    by (cases "getVersionReply E port (versionCalls w + n)") (auto simp: isl_def)
  have step: "client_getVersion E port (afterQueries E port w n) =
      (Inl e, afterQueries E port w (Suc n))"
    by (simp add: client_getVersion_def emit_def afterQueries_def versionAskedAt_Suc fail
          flip: replicate_append_same)
  show ?thesis
    by (subst isSameVersion_loop.simps) (simp add: step assms(1) nowSeconds_def)
qed

lemma isSameVersion_loop_over:
  assumes "5 < secondsAt E (versionAskedAt E port w n) - st"
  shows "isSameVersion_loop E port ev st (afterQueries E port w n) =
         Some (False, afterQueries E port w n)"
  using assms by (subst isSameVersion_loop.simps) (simp add: nowSeconds_def)

lemma isSameVersion_loop_answered:
  assumes "secondsAt E (versionAskedAt E port w n) - st \<le> 5"
    and "getVersionReply E port (versionCalls w + n) = (d, Inr v)"
  shows "isSameVersion_loop E port ev st (afterQueries E port w n) =
         Some (v = ev, snd (client_getVersion E port (afterQueries E port w n)))"
  using assms
  by (subst isSameVersion_loop.simps) (simp add: nowSeconds_def client_getVersion_def)

text \<open>
  While the queries fail, the loop either leaves at the first of them that would be
  sent too late, or is still running after all of them.
\<close>

lemma isSameVersion_loop_prefix:
  assumes "\<forall>i<n. isl (snd (getVersionReply E port (versionCalls w + i)))"
  shows "(\<exists>m\<le>n. 5 < secondsAt E (versionAskedAt E port w m) - st
            \<and> isSameVersion_loop E port ev st w = Some (False, afterQueries E port w m))
       \<or> ((\<forall>i\<le>n. secondsAt E (versionAskedAt E port w i) - st \<le> 5)
            \<and> isSameVersion_loop E port ev st w =
                isSameVersion_loop E port ev st (afterQueries E port w n))"
  using assms
proof (induction n)
  case 0
  show ?case
  proof (cases "secondsAt E (versionAskedAt E port w 0) - st \<le> 5")
    case True
    then show ?thesis by simp
  next
    case False
    then have "5 < secondsAt E (versionAskedAt E port w 0) - st" by simp
    from isSameVersion_loop_over [OF this, of ev] show ?thesis
      using \<open>5 < secondsAt E (versionAskedAt E port w 0) - st\<close> by auto
  qed
next
  case (Suc n)
  then have "(\<exists>m\<le>n. 5 < secondsAt E (versionAskedAt E port w m) - st
            \<and> isSameVersion_loop E port ev st w = Some (False, afterQueries E port w m))
       \<or> ((\<forall>i\<le>n. secondsAt E (versionAskedAt E port w i) - st \<le> 5)
            \<and> isSameVersion_loop E port ev st w =
                isSameVersion_loop E port ev st (afterQueries E port w n))"
    by simp
  then show ?case
  proof
    assume "\<exists>m\<le>n. 5 < secondsAt E (versionAskedAt E port w m) - st
            \<and> isSameVersion_loop E port ev st w = Some (False, afterQueries E port w m)"
    then show ?thesis using le_Suc_eq by blast
  next
    assume run: "(\<forall>i\<le>n. secondsAt E (versionAskedAt E port w i) - st \<le> 5)
            \<and> isSameVersion_loop E port ev st w =
                isSameVersion_loop E port ev st (afterQueries E port w n)"
    then have within: "secondsAt E (versionAskedAt E port w n) - st \<le> 5" by simp
    have failed: "isl (snd (getVersionReply E port (versionCalls w + n)))"
      using Suc.prems by simp
    have next_: "isSameVersion_loop E port ev st w =
        isSameVersion_loop E port ev st (afterQueries E port w (Suc n))"
      using run isSameVersion_loop_failed [OF within failed, of ev] by simp
    show ?thesis
    proof (cases "secondsAt E (versionAskedAt E port w (Suc n)) - st \<le> 5")
      case True
      with run have "\<forall>i\<le>Suc n. secondsAt E (versionAskedAt E port w i) - st \<le> 5"
        by (simp add: le_Suc_eq)
      with next_ show ?thesis by blast
    next
      case False
      then have over: "5 < secondsAt E (versionAskedAt E port w (Suc n)) - st" by simp
      from isSameVersion_loop_over [OF over, of ev] next_
      have "isSameVersion_loop E port ev st w = Some (False, afterQueries E port w (Suc n))"
        by simp
      with over show ?thesis by blast
    qed
  qed
qed

text \<open>
  C3. The lock file names a process other than the caller, the process table has it,
  and of the version queries the first \<open>n\<close> fail and the next one, sent at most 5
  seconds (5000 ms) after the loop was entered, answers the expected version. Then,
  however the clock is read, \<^verbatim>\<open>checkAlive\<close> returns that process. It has read the lock
  file and asked for the version \<open>n + 1\<close> times and done nothing else: the Process
  Terminator was not called and the file system is as it was.
\<close>

theorem checkAlive_confirms_owner:
  assumes owner: "fst (fs_readFile (pidPath this) w) = Inr text" "parseInt10 text = Num p"
    and other: "p \<noteq> processPid E"
    and alive: "isRunning E w (Num p)"
    and fails: "\<forall>i<n. isl (snd (getVersionReply E port (versionCalls w + i)))"
    and budget: "versionAskedAt E port w n \<le> nowMs w + 5000"
    and answer: "snd (getVersionReply E port (versionCalls w + n)) = Inr (serverVersion this)"
  shows "\<exists>w'. checkAlive E this port w = Some (Inr (Some (Num p)), w')
           \<and> killed w' = killed w
           \<and> files w' = files w
           \<and> log w' = log w @ FsReadFile (pidPath this) # replicate (Suc n) (ClientGetVersion port)"
proof -
  let ?w1 = "emit (FsReadFile (pidPath this)) w"
  let ?st = "secondsAt E (nowMs w)"
  obtain d where reply: "getVersionReply E port (versionCalls ?w1 + n) = (d, Inr (serverVersion this))"
    using answer by (cases "getVersionReply E port (versionCalls w + n)") simp
  have within: "secondsAt E (versionAskedAt E port ?w1 i) - ?st \<le> 5" if "i \<le> n" for i
  proof -
    have "versionAskedAt E port w i \<le> nowMs w + 5000"
      using versionAskedAt_mono [OF that, of E port w] budget by simp
    then show ?thesis using within_5 by simp
  qed
  have fails1: "\<forall>i<n. isl (snd (getVersionReply E port (versionCalls ?w1 + i)))"
    using fails by simp
  from isSameVersion_loop_prefix [OF fails1, of ?st "serverVersion this"]
  have "isSameVersion_loop E port (serverVersion this) ?st ?w1 =
        isSameVersion_loop E port (serverVersion this) ?st (afterQueries E port ?w1 n)"
    using within by (auto simp: not_less [symmetric] simp del: not_less)
  also have "\<dots> = Some (True, snd (client_getVersion E port (afterQueries E port ?w1 n)))"
    using isSameVersion_loop_answered [OF within [of n] reply, of "serverVersion this"] by simp
  finally have same: "isSameVersion E port (serverVersion this) ?w1 =
      Some (True, snd (client_getVersion E port (afterQueries E port ?w1 n)))"
    by (simp add: isSameVersion_def nowSeconds_def)
  let ?w2 = "snd (client_getVersion E port (afterQueries E port ?w1 n))"
  have "checkAlive E this port w = Some (Inr (Some (Num p)), ?w2)"
    using owner other alive by (simp add: checkAlive_def getServerPID_parsed same)
  moreover have l: "log ?w2 = log w @ FsReadFile (pidPath this) # replicate (Suc n) (ClientGetVersion port)"
    by (simp flip: replicate_append_same)
  moreover have "killed ?w2 = killed w"
    unfolding killed_def l by simp
  moreover have "files ?w2 = files w" by simp
  ultimately show ?thesis by blast
qed

theorem checkAlive_confirms_owner_witness:
  "\<exists>w'. checkAlive (host ''1.4.0'') manager 8000 (lockFileWith ''4242'') = Some (Inr (Some (Num 4242)), w')
           \<and> killed w' = []
           \<and> files w' = files (lockFileWith ''4242'')
           \<and> log w' = [FsReadFile ''/data/server.pid'', ClientGetVersion 8000, ClientGetVersion 8000]"
  using checkAlive_confirms_owner [of manager "lockFileWith ''4242''" "''4242''" 4242 "host ''1.4.0''" 1 8000]
  by (simp add: pidPath_manager parseInt10_4242 fs_readFile_def
        isRunning_def versionAskedAt_def killed_def)




subsection \<open>The two waits of \<^verbatim>\<open>start\<close>\<close>

lemma afterTimers_simps [simp]:
  "afterTimers E w 0 = w"
  "nowMs (afterTimers E w j) = timerAt E (nowMs w) j"
  "versionCalls (afterTimers E w j) = versionCalls w"
  "waitCalls (afterTimers E w j) = waitCalls w"
  "files (afterTimers E w j) = files w"
  "log (afterTimers E w j) = log w @ replicate j (SetTimeout 100)"
  by (simp_all add: afterTimers_def)

lemma afterTimers_setTimeout:
  "afterTimers E (setTimeout E 100 w) j = afterTimers E w (Suc j)"
  by (simp add: afterTimers_def setTimeout_def emit_def)

lemma afterProbes_simps [simp]:
  "afterProbes E port w 0 = w"
  "nowMs (afterProbes E port w k) = probeAskedAt E port (waitCalls w) (nowMs w) k"
  "versionCalls (afterProbes E port w k) = versionCalls w"
  "waitCalls (afterProbes E port w k) = waitCalls w + k"
  "files (afterProbes E port w k) = files w"
  "log (afterProbes E port w k) = log w @ concat (replicate k [ClientWait port 1000, SetTimeout 100])"
  by (simp_all add: afterProbes_def)

lemma afterProbes_failed:
  "afterProbes E port (setTimeout E 100 (snd (client_wait E port 1000 w))) k
     = afterProbes E port w (Suc k)"
  by (simp add: afterProbes_def setTimeout_def client_wait_def emit_def Let_def split: prod.splits)

lemma probeAskedAt_step:
  "probeAskedAt E port c t i \<le> probeAskedAt E port c t (Suc i)"
proof (induction i arbitrary: c t)
  case 0
  show ?case by (simp add: Let_def)
next
  case (Suc i)
  define t' where "t' = t + fst (waitReply E port c) + 100 + timerLate E (t + fst (waitReply E port c))"
  have unfold: "probeAskedAt E port c t (Suc n) = probeAskedAt E port (Suc c) t' n" for n
    unfolding t'_def by (simp only: probeAskedAt.simps Let_def)
  show ?case unfolding unfold by (rule Suc.IH)
qed

lemma probeAskedAt_mono:
  "i \<le> n \<Longrightarrow> probeAskedAt E port c t i \<le> probeAskedAt E port c t n"
proof (induction n)
  case 0
  then show ?case by simp
next
  case (Suc n)
  show ?case
  proof (cases "i = Suc n")
    case True
    then show ?thesis by simp
  next
    case False
    with Suc.prems have "i \<le> n" by simp
    from Suc.IH [OF this] probeAskedAt_step [of E port c t n] show ?thesis by linarith
  qed
qed

text \<open>
  The liveness wait sets \<open>j\<close> timers: before each of them the child was not in the process
  table and the loop condition held, and after the last the child is there or the
  condition fails.
\<close>

lemma waitRunning_loop_run:
  "\<exists>j. waitRunning_loop E child st w = afterTimers E w j
     \<and> (\<forall>i<j. \<not> isRunningAt E (timerAt E (nowMs w) i) child
               \<and> secondsAt E (timerAt E (nowMs w) i) - st \<le> 5)
     \<and> (isRunningAt E (timerAt E (nowMs w) j) child
          \<or> 5 < secondsAt E (timerAt E (nowMs w) j) - st)"
proof (induction E child st w rule: waitRunning_loop.induct)
  case (1 E child st w)
  note body = waitRunning_loop.simps [of E child st w]
  show ?case
  proof (cases "\<not> isRunning E w child \<and> nowSeconds E w - st \<le> 5")
    case False
    then have "waitRunning_loop E child st w = afterTimers E w 0"
      unfolding body by auto
    with False show ?thesis
      by (intro exI[of _ 0]) (auto simp: isRunning_def nowSeconds_def)
  next
    case True
    let ?w = "setTimeout E 100 w"
    from "1.IH" [OF True] obtain j where
      run: "waitRunning_loop E child st ?w = afterTimers E ?w j"
      and before: "\<forall>i<j. \<not> isRunningAt E (timerAt E (nowMs ?w) i) child
               \<and> secondsAt E (timerAt E (nowMs ?w) i) - st \<le> 5"
      and last: "isRunningAt E (timerAt E (nowMs ?w) j) child
          \<or> 5 < secondsAt E (timerAt E (nowMs ?w) j) - st"
      by blast
    have shift: "timerAt E (nowMs ?w) i = timerAt E (nowMs w) (Suc i)" for i
      by simp
    have "waitRunning_loop E child st w = afterTimers E w (Suc j)"
      using body True run by (simp add: afterTimers_setTimeout)
    moreover have "\<forall>i<Suc j. \<not> isRunningAt E (timerAt E (nowMs w) i) child
               \<and> secondsAt E (timerAt E (nowMs w) i) - st \<le> 5"
    proof (intro allI impI)
      fix i assume "i < Suc j"
      show "\<not> isRunningAt E (timerAt E (nowMs w) i) child
               \<and> secondsAt E (timerAt E (nowMs w) i) - st \<le> 5"
      proof (cases i)
        case 0
        with True show ?thesis by (simp add: isRunning_def nowSeconds_def)
      next
        case (Suc i')
        with \<open>i < Suc j\<close> have "i' < j" by simp
        with before show ?thesis unfolding Suc shift [symmetric] by blast
      qed
    qed
    moreover have "isRunningAt E (timerAt E (nowMs w) (Suc j)) child
          \<or> 5 < secondsAt E (timerAt E (nowMs w) (Suc j)) - st"
      using last unfolding shift .
    ultimately show ?thesis by blast
  qed
qed

text \<open>
  The reachability wait makes \<open>k\<close> failed probes, each sent while the loop condition
  held and followed by a timer; then it sends one more, which succeeds, or the condition
  fails and it ends with the error it remembers.
\<close>

lemma waitReachable_loop_run:
  "\<exists>k. (\<forall>i<k. snd (waitReply E port (waitCalls w + i)) \<noteq> None
               \<and> secondsAt E (probeAskedAt E port (waitCalls w) (nowMs w) i) - st \<le> 30)
     \<and> ((secondsAt E (probeAskedAt E port (waitCalls w) (nowMs w) k) - st \<le> 30
           \<and> snd (waitReply E port (waitCalls w + k)) = None
           \<and> waitReachable_loop E port st lastError w
               = (Inr (), snd (client_wait E port 1000 (afterProbes E port w k))))
        \<or> (30 < secondsAt E (probeAskedAt E port (waitCalls w) (nowMs w) k) - st
           \<and> waitReachable_loop E port st lastError w
               = ((case (if k = 0 then lastError
                         else snd (waitReply E port (waitCalls w + (k - 1)))) of
                     Some e \<Rightarrow> Inl e | None \<Rightarrow> Inr ()),
                  afterProbes E port w k)))"
proof (induction E port st lastError w rule: waitReachable_loop.induct)
  case (1 E port st lastError w)
  note body = waitReachable_loop.simps [of E port st lastError w]
  show ?case
  proof (cases "nowSeconds E w - st \<le> 30")
    case False
    then have "30 < secondsAt E (probeAskedAt E port (waitCalls w) (nowMs w) 0) - st"
      by (simp add: nowSeconds_def)
    moreover have "waitReachable_loop E port st lastError w
        = ((case lastError of Some e \<Rightarrow> Inl e | None \<Rightarrow> Inr ()), afterProbes E port w 0)"
      using body False by (simp split: option.splits)
    ultimately show ?thesis by (intro exI[of _ 0]) simp
  next
    case True
    obtain r w1 where cw: "client_wait E port 1000 w = (r, w1)"
      by (cases "client_wait E port 1000 w")
    have r: "r = snd (waitReply E port (waitCalls w))"
      and w1: "w1 = snd (client_wait E port 1000 w)"
      using cw client_wait_simps(1) [of E port 1000 w] by simp_all
    show ?thesis
    proof (cases r)
      case None
      have "waitReachable_loop E port st lastError w
          = (Inr (), snd (client_wait E port 1000 (afterProbes E port w 0)))"
        using body True cw None by simp
      with True None r show ?thesis
        by (intro exI[of _ 0]) (simp add: nowSeconds_def)
    next
      case (Some e)
      let ?w = "setTimeout E 100 w1"
      have step: "waitReachable_loop E port st lastError w
          = waitReachable_loop E port st (Some e) ?w"
        using body True cw Some by simp
      have calls: "waitCalls ?w = Suc (waitCalls w)" unfolding w1 by simp
      have shift: "probeAskedAt E port (waitCalls ?w) (nowMs ?w) i
          = probeAskedAt E port (waitCalls w) (nowMs w) (Suc i)" for i
        unfolding w1 by (simp only: setTimeout_simps client_wait_simps probeAskedAt.simps Let_def)
      have after: "afterProbes E port ?w k = afterProbes E port w (Suc k)" for k
        unfolding w1 by (rule afterProbes_failed)
      from "1.IH" [OF True cw [symmetric] Some] obtain k where
        before: "\<forall>i<k. snd (waitReply E port (waitCalls ?w + i)) \<noteq> None
               \<and> secondsAt E (probeAskedAt E port (waitCalls ?w) (nowMs ?w) i) - st \<le> 30"
        and ends: "(secondsAt E (probeAskedAt E port (waitCalls ?w) (nowMs ?w) k) - st \<le> 30
           \<and> snd (waitReply E port (waitCalls ?w + k)) = None
           \<and> waitReachable_loop E port st (Some e) ?w
               = (Inr (), snd (client_wait E port 1000 (afterProbes E port ?w k))))
        \<or> (30 < secondsAt E (probeAskedAt E port (waitCalls ?w) (nowMs ?w) k) - st
           \<and> waitReachable_loop E port st (Some e) ?w
               = ((case (if k = 0 then Some e
                         else snd (waitReply E port (waitCalls ?w + (k - 1)))) of
                     Some e \<Rightarrow> Inl e | None \<Rightarrow> Inr ()),
                  afterProbes E port ?w k))"
        by blast
      have last: "(if k = 0 then Some e else snd (waitReply E port (waitCalls ?w + (k - 1))))
          = snd (waitReply E port (waitCalls w + (Suc k - 1)))"
        using Some r unfolding calls by (cases k) simp_all
      have "\<forall>i<Suc k. snd (waitReply E port (waitCalls w + i)) \<noteq> None
               \<and> secondsAt E (probeAskedAt E port (waitCalls w) (nowMs w) i) - st \<le> 30"
      proof (intro allI impI)
        fix i assume "i < Suc k"
        show "snd (waitReply E port (waitCalls w + i)) \<noteq> None
               \<and> secondsAt E (probeAskedAt E port (waitCalls w) (nowMs w) i) - st \<le> 30"
        proof (cases i)
          case 0
          with True Some r show ?thesis by (simp add: nowSeconds_def)
        next
          case (Suc i')
          with \<open>i < Suc k\<close> have "i' < k" by simp
          with before have A: "snd (waitReply E port (waitCalls ?w + i')) \<noteq> None"
            and B: "secondsAt E (probeAskedAt E port (waitCalls ?w) (nowMs ?w) i') - st \<le> 30"
            by blast+
          show ?thesis unfolding Suc using A [unfolded calls] B [unfolded shift]
            by (simp del: probeAskedAt.simps)
        qed
      qed
      moreover have "(secondsAt E (probeAskedAt E port (waitCalls w) (nowMs w) (Suc k)) - st \<le> 30
           \<and> snd (waitReply E port (waitCalls w + Suc k)) = None
           \<and> waitReachable_loop E port st lastError w
               = (Inr (), snd (client_wait E port 1000 (afterProbes E port w (Suc k)))))
        \<or> (30 < secondsAt E (probeAskedAt E port (waitCalls w) (nowMs w) (Suc k)) - st
           \<and> waitReachable_loop E port st lastError w
               = ((case (if Suc k = 0 then lastError
                         else snd (waitReply E port (waitCalls w + (Suc k - 1)))) of
                     Some e \<Rightarrow> Inl e | None \<Rightarrow> Inr ()),
                  afterProbes E port w (Suc k)))"
        using ends [unfolded shift after last, unfolded calls, folded step]
        by (simp del: probeAskedAt.simps)
      ultimately show ?thesis by blast
    qed
  qed
qed

lemma within_5_ms: "secondsAt E t' - secondsAt E t \<le> 5 \<Longrightarrow> t' < t + 6000"
  using over_5 [of t t' E] by (cases "t' < t + 6000") simp_all

lemma over_5_ms: "5 < secondsAt E t' - secondsAt E t \<Longrightarrow> t + 5000 < t'"
  using within_5 [of t' t E] by (cases "t + 5000 < t'") simp_all

lemma within_30_ms: "secondsAt E t' - secondsAt E t \<le> 30 \<Longrightarrow> t' < t + 31000"
  using over_30 [of t t' E] by (cases "t' < t + 31000") simp_all

lemma over_30_ms: "30 < secondsAt E t' - secondsAt E t \<Longrightarrow> t + 30000 < t'"
  using within_30 [of t' t E] by (cases "t + 30000 < t'") simp_all

lemma waitRunning_run:
  "\<exists>j. waitRunning E child w = afterTimers E w j
     \<and> (\<forall>i<j. \<not> isRunningAt E (timerAt E (nowMs w) i) child
               \<and> timerAt E (nowMs w) i < nowMs w + 6000)
     \<and> (isRunningAt E (timerAt E (nowMs w) j) child
          \<or> nowMs w + 5000 < timerAt E (nowMs w) j)"
proof -
  from waitRunning_loop_run [of E child "secondsAt E (nowMs w)" w] obtain j where
    run: "waitRunning E child w = afterTimers E w j"
    and before: "\<forall>i<j. \<not> isRunningAt E (timerAt E (nowMs w) i) child
               \<and> secondsAt E (timerAt E (nowMs w) i) - secondsAt E (nowMs w) \<le> 5"
    and last: "isRunningAt E (timerAt E (nowMs w) j) child
          \<or> 5 < secondsAt E (timerAt E (nowMs w) j) - secondsAt E (nowMs w)"
    unfolding waitRunning_def nowSeconds_def by blast
  from before have "\<forall>i<j. \<not> isRunningAt E (timerAt E (nowMs w) i) child
               \<and> timerAt E (nowMs w) i < nowMs w + 6000"
    using within_5_ms by blast
  moreover from last have "isRunningAt E (timerAt E (nowMs w) j) child
          \<or> nowMs w + 5000 < timerAt E (nowMs w) j"
    using over_5_ms by blast
  ultimately show ?thesis using run by blast
qed

lemma waitReachable_run:
  "\<exists>k. (\<forall>i<k. snd (waitReply E port (waitCalls w + i)) \<noteq> None
               \<and> probeAskedAt E port (waitCalls w) (nowMs w) i < nowMs w + 31000)
     \<and> ((probeAskedAt E port (waitCalls w) (nowMs w) k < nowMs w + 31000
           \<and> snd (waitReply E port (waitCalls w + k)) = None
           \<and> waitReachable E port w
               = (Inr (), snd (client_wait E port 1000 (afterProbes E port w k))))
        \<or> (0 < k \<and> nowMs w + 30000 < probeAskedAt E port (waitCalls w) (nowMs w) k
           \<and> (\<exists>e. snd (waitReply E port (waitCalls w + (k - 1))) = Some e
                  \<and> waitReachable E port w = (Inl e, afterProbes E port w k))))"
proof -
  let ?st = "secondsAt E (nowMs w)"
  let ?asked = "probeAskedAt E port (waitCalls w) (nowMs w)"
  from waitReachable_loop_run [of E port w ?st None] obtain k where
    before: "\<forall>i<k. snd (waitReply E port (waitCalls w + i)) \<noteq> None
               \<and> secondsAt E (?asked i) - ?st \<le> 30"
    and ends: "(secondsAt E (?asked k) - ?st \<le> 30
           \<and> snd (waitReply E port (waitCalls w + k)) = None
           \<and> waitReachable E port w
               = (Inr (), snd (client_wait E port 1000 (afterProbes E port w k))))
        \<or> (30 < secondsAt E (?asked k) - ?st
           \<and> waitReachable E port w
               = ((case (if k = 0 then None
                         else snd (waitReply E port (waitCalls w + (k - 1)))) of
                     Some e \<Rightarrow> Inl e | None \<Rightarrow> Inr ()),
                  afterProbes E port w k))"
    unfolding waitReachable_def nowSeconds_def by blast
  have fails: "\<forall>i<k. snd (waitReply E port (waitCalls w + i)) \<noteq> None
               \<and> ?asked i < nowMs w + 31000"
    using before within_30_ms by blast
  from ends show ?thesis
  proof
    assume ok: "secondsAt E (?asked k) - ?st \<le> 30
           \<and> snd (waitReply E port (waitCalls w + k)) = None
           \<and> waitReachable E port w
               = (Inr (), snd (client_wait E port 1000 (afterProbes E port w k)))"
    then have "?asked k < nowMs w + 31000" using within_30_ms by blast
    with ok fails show ?thesis by blast
  next
    assume over: "30 < secondsAt E (?asked k) - ?st
           \<and> waitReachable E port w
               = ((case (if k = 0 then None
                         else snd (waitReply E port (waitCalls w + (k - 1)))) of
                     Some e \<Rightarrow> Inl e | None \<Rightarrow> Inr ()),
                  afterProbes E port w k)"
    then have late: "nowMs w + 30000 < ?asked k" using over_30_ms by blast
    then have k: "0 < k" by (cases k) simp_all
    then have "k - 1 < k" by simp
    with before obtain e where e: "snd (waitReply E port (waitCalls w + (k - 1))) = Some e"
      by blast
    with over k have "waitReachable E port w = (Inl e, afterProbes E port w k)" by simp
    with k late e fails show ?thesis by blast
  qed
qed

subsection \<open>What \<^verbatim>\<open>checkAlive\<close> and \<^verbatim>\<open>start\<close> do to the world\<close>

lemma fs_remove_effects:
  "log (snd (fs_remove path w)) = log w @ [FsRemove path]"
  "waitCalls (snd (fs_remove path w)) = waitCalls w"
  "files (snd (fs_remove path w)) = files w
     \<or> files (snd (fs_remove path w)) = (files w)(path := Absent)"
  by (simp_all add: fs_remove_def split: entry.splits)

lemma checkAlive_trace:
  assumes "checkAlive E this port w = Some (out, w1)"
  shows "\<exists>k tl. log w1 = log w @ FsReadFile (pidPath this) # replicate k (ClientGetVersion port) @ tl
          \<and> (tl = [] \<or> tl = [FsRemove (pidPath this)]
               \<or> (\<exists>q. tl = [KillProcess q] \<or> tl = [KillProcess q, FsRemove (pidPath this)]))
          \<and> waitCalls w1 = waitCalls w
          \<and> (files w1 = files w \<or> files w1 = (files w)(pidPath this := Absent))"
proof -
  let ?path = "pidPath this"
  let ?w0 = "emit (FsReadFile ?path) w"
  let ?goal = "\<lambda>w1. \<exists>k tl. log w1 = log w @ FsReadFile ?path # replicate k (ClientGetVersion port) @ tl
          \<and> (tl = [] \<or> tl = [FsRemove ?path]
               \<or> (\<exists>q. tl = [KillProcess q] \<or> tl = [KillProcess q, FsRemove ?path]))
          \<and> waitCalls w1 = waitCalls w
          \<and> (files w1 = files w \<or> files w1 = (files w)(?path := Absent))"
  have read: "?goal ?w0"
    by (intro exI[of _ 0] exI[of _ "[]"]) simp
  have removed: "?goal (snd (fs_remove ?path ?w0))"
    using fs_remove_effects [of ?path ?w0]
    by (intro exI[of _ 0] exI[of _ "[FsRemove ?path]"]) simp
  obtain r where gs: "getServerPID this w = (r, ?w0)"
    by (simp add: getServerPID_unfold)
  show ?thesis
  proof (cases "\<exists>p. r = Inr (Some p) \<and> \<not> strictEq p (Num (processPid E))")
    case False
    then have "w1 = ?w0"
      using assms gs by (auto simp: checkAlive_def split: sum.splits option.splits if_splits)
    then show ?thesis using read by simp
  next
    case True
    then obtain p where p: "r = Inr (Some p)" "\<not> strictEq p (Num (processPid E))" by blast
    show ?thesis
    proof (cases "isRunning E ?w0 p")
      case False
      then have "w1 = snd (fs_remove ?path ?w0)"
        using assms gs p by (auto simp: checkAlive_def split: prod.splits option.splits)
      then show ?thesis using removed by simp
    next
      case True
      with assms gs p obtain b w2 where same: "isSameVersion E port (serverVersion this) ?w0 = Some (b, w2)"
        by (auto simp: checkAlive_def split: option.splits)
      from isSameVersion_loop_effects [OF same [unfolded isSameVersion_def]] obtain n where
        w2: "files w2 = files w" "waitCalls w2 = waitCalls w"
          "log w2 = log w @ FsReadFile ?path # replicate n (ClientGetVersion port)"
        by auto
      show ?thesis
      proof (cases b)
        case True
        then have "w1 = w2" using assms gs p \<open>isRunning E ?w0 p\<close> same by (simp add: checkAlive_def)
        then show ?thesis using w2 by (intro exI[of _ n] exI[of _ "[]"]) simp
      next
        case False
        let ?w3 = "emit (KillProcess p) w2"
        show ?thesis
        proof (cases "killReply E p")
          case (Some rejection)
          then have "w1 = ?w3"
            using assms gs p \<open>isRunning E ?w0 p\<close> same False
            by (simp add: checkAlive_def kill_def killProcess_def)
          then show ?thesis using w2
            by (intro exI[of _ n] exI[of _ "[KillProcess p]"]) simp
        next
          case None
          then have "w1 = snd (fs_remove ?path ?w3)"
            using assms gs p \<open>isRunning E ?w0 p\<close> same False
            by (auto simp: checkAlive_def kill_def killProcess_def split: prod.splits option.splits)
          then show ?thesis using w2 fs_remove_effects [of ?path ?w3]
            by (intro exI[of _ n] exI[of _ "[KillProcess p, FsRemove ?path]"]) simp
        qed
      qed
    qed
  qed
qed

lemma checkAlive_quiet:
  assumes "checkAlive E this port w = Some (out, w1)"
  shows "spawned w1 = spawned w \<and> called w1 = called w \<and> written w1 = written w"
proof -
  from checkAlive_trace [OF assms] obtain k tl where
    l: "log w1 = log w @ FsReadFile (pidPath this) # replicate k (ClientGetVersion port) @ tl"
    and tl: "tl = [] \<or> tl = [FsRemove (pidPath this)]
               \<or> (\<exists>q. tl = [KillProcess q] \<or> tl = [KillProcess q, FsRemove (pidPath this)])"
    by blast
  from tl show ?thesis
    unfolding spawned_def called_def written_def l by auto
qed

text \<open>
  The run of \<^verbatim>\<open>start\<close> after \<^verbatim>\<open>checkAlive\<close> has returned \<^verbatim>\<open>null\<close>: the callback, the
  launch, \<open>j\<close> timers of the liveness wait, \<open>k\<close> failed probes with their timers, and
  then a probe that succeeds or the error of the last probe.
\<close>

lemma start_launch_run:
  assumes "checkAlive E this port w = Some (Inr None, w1)"
  shows "\<exists>out w' j k. start E this port bin onStart w = Some (out, w')
     \<and> files w' = files w1
     \<and> log w' = log w1 @ (case onStart of Some f \<Rightarrow> [Called f] | None \<Rightarrow> [])
           @ [Spawn (cmd bin) (firstArgs bin @ [''start'', ''server'']) True ''ignore'',
              Unref (childPid E)]
           @ replicate j (SetTimeout 100)
           @ concat (replicate k [ClientWait port 1000, SetTimeout 100])
           @ (case out of Inl e \<Rightarrow> [] | Inr r \<Rightarrow> [ClientWait port 1000])
     \<and> (\<forall>i<j. \<not> isRunningAt E (timerAt E (nowMs w1) i) (childPid E)
               \<and> timerAt E (nowMs w1) i < nowMs w1 + 6000)
     \<and> (isRunningAt E (timerAt E (nowMs w1) j) (childPid E)
          \<or> nowMs w1 + 5000 < timerAt E (nowMs w1) j)
     \<and> (\<forall>i<k. snd (waitReply E port (waitCalls w1 + i)) \<noteq> None
               \<and> probeAskedAt E port (waitCalls w1) (timerAt E (nowMs w1) j) i
                    < timerAt E (nowMs w1) j + 31000)
     \<and> ((out = Inr \<lparr>pid = childPid E, started = True\<rparr>
           \<and> snd (waitReply E port (waitCalls w1 + k)) = None
           \<and> probeAskedAt E port (waitCalls w1) (timerAt E (nowMs w1) j) k
                < timerAt E (nowMs w1) j + 31000)
        \<or> (0 < k
           \<and> timerAt E (nowMs w1) j + 30000
                < probeAskedAt E port (waitCalls w1) (timerAt E (nowMs w1) j) k
           \<and> (\<exists>e. snd (waitReply E port (waitCalls w1 + (k - 1))) = Some e \<and> out = Inl e)))"
proof -
  let ?pre = "(case onStart of Some f \<Rightarrow> [Called f] | None \<Rightarrow> [])
                 @ [Spawn (cmd bin) (firstArgs bin @ [''start'', ''server'']) True ''ignore'',
                    Unref (childPid E)]"
  let ?w2 = "case onStart of Some f \<Rightarrow> call f w1 | None \<Rightarrow> w1"
  let ?w3 = "emit (Spawn (cmd bin) (firstArgs bin @ [''start'', ''server'']) True ''ignore'') ?w2"
  let ?w4 = "unref (childPid E) ?w3"
  let ?w5 = "waitRunning E (childPid E) ?w4"
  have w4: "files ?w4 = files w1" "waitCalls ?w4 = waitCalls w1" "nowMs ?w4 = nowMs w1"
    "log ?w4 = log w1 @ ?pre"
    by (simp_all add: unref_def call_def split: option.splits)
  from waitRunning_run [of E "childPid E" ?w4] obtain j where
    w5: "?w5 = afterTimers E ?w4 j"
    and before: "\<forall>i<j. \<not> isRunningAt E (timerAt E (nowMs w1) i) (childPid E)
               \<and> timerAt E (nowMs w1) i < nowMs w1 + 6000"
    and last: "isRunningAt E (timerAt E (nowMs w1) j) (childPid E)
          \<or> nowMs w1 + 5000 < timerAt E (nowMs w1) j"
    unfolding w4 by blast
  have w5': "files ?w5 = files w1" "waitCalls ?w5 = waitCalls w1"
    "nowMs ?w5 = timerAt E (nowMs w1) j"
    "log ?w5 = log w1 @ ?pre @ replicate j (SetTimeout 100)"
    unfolding w5 using w4 by simp_all
  obtain r w6 where reach: "waitReachable E port ?w5 = (r, w6)"
    by (cases "waitReachable E port ?w5")
  let ?out = "case r of Inl e \<Rightarrow> Inl e | Inr u \<Rightarrow> Inr \<lparr>pid = childPid E, started = True\<rparr>"
  have run: "start E this port bin onStart w = Some (?out, w6)"
    using assms reach by (simp add: start_def spawn_def Let_def split: sum.splits)
  let ?asked = "probeAskedAt E port (waitCalls w1) (timerAt E (nowMs w1) j)"
  from waitReachable_run [of E port ?w5] obtain k where
    fails: "\<forall>i<k. snd (waitReply E port (waitCalls w1 + i)) \<noteq> None
               \<and> ?asked i < timerAt E (nowMs w1) j + 31000"
    and ends: "(?asked k < timerAt E (nowMs w1) j + 31000
           \<and> snd (waitReply E port (waitCalls w1 + k)) = None
           \<and> (r, w6) = (Inr (), snd (client_wait E port 1000 (afterProbes E port ?w5 k))))
        \<or> (0 < k \<and> timerAt E (nowMs w1) j + 30000 < ?asked k
           \<and> (\<exists>e. snd (waitReply E port (waitCalls w1 + (k - 1))) = Some e
                  \<and> (r, w6) = (Inl e, afterProbes E port ?w5 k)))"
    unfolding reach w5'(2) w5'(3) by blast
  let ?probes = "concat (replicate k [ClientWait port 1000, SetTimeout 100])"
  have "files w6 = files w1
     \<and> log w6 = log w1 @ ?pre @ replicate j (SetTimeout 100) @ ?probes
           @ (case ?out of Inl e \<Rightarrow> [] | Inr r \<Rightarrow> [ClientWait port 1000])
     \<and> ((?out = Inr \<lparr>pid = childPid E, started = True\<rparr>
           \<and> snd (waitReply E port (waitCalls w1 + k)) = None
           \<and> ?asked k < timerAt E (nowMs w1) j + 31000)
        \<or> (0 < k \<and> timerAt E (nowMs w1) j + 30000 < ?asked k
           \<and> (\<exists>e. snd (waitReply E port (waitCalls w1 + (k - 1))) = Some e \<and> ?out = Inl e)))"
    using ends
  proof
    assume ok: "?asked k < timerAt E (nowMs w1) j + 31000
           \<and> snd (waitReply E port (waitCalls w1 + k)) = None
           \<and> (r, w6) = (Inr (), snd (client_wait E port 1000 (afterProbes E port ?w5 k)))"
    then have r: "r = Inr ()" and w6: "w6 = snd (client_wait E port 1000 (afterProbes E port ?w5 k))"
      by simp_all
    have "files w6 = files w1" unfolding w6 using w5'(1) by simp
    moreover have "log w6 = log w1 @ ?pre @ replicate j (SetTimeout 100) @ ?probes @ [ClientWait port 1000]"
      unfolding w6 using w5'(4) by simp
    ultimately show ?thesis using ok r by simp
  next
    assume bad: "0 < k \<and> timerAt E (nowMs w1) j + 30000 < ?asked k
           \<and> (\<exists>e. snd (waitReply E port (waitCalls w1 + (k - 1))) = Some e
                  \<and> (r, w6) = (Inl e, afterProbes E port ?w5 k))"
    then obtain e where e: "snd (waitReply E port (waitCalls w1 + (k - 1))) = Some e"
      and r: "r = Inl e" and w6: "w6 = afterProbes E port ?w5 k"
      by auto
    have "files w6 = files w1" unfolding w6 using w5'(1) by simp
    moreover have "log w6 = log w1 @ ?pre @ replicate j (SetTimeout 100) @ ?probes"
      unfolding w6 using w5'(4) by simp
    ultimately show ?thesis using bad r e by simp
  qed
  with run before last fails show ?thesis
    by (intro exI[of _ ?out] exI[of _ w6] exI[of _ j] exI[of _ k]) (simp only: simp_thms append_assoc)
qed

lemma backoff_quiet:
  "concat (map f (concat (replicate k [ClientWait port 1000, SetTimeout 100])))
     = concat (replicate k (f (ClientWait port 1000) @ f (SetTimeout 100)))"
  by (induction k) simp_all

subsection \<open>Runs of the scenarios\<close>

lemma host_checkAlive_run:
  "checkAlive (host ''1.4.0'') manager 8000 (lockFileWith ''4242'')
   = Some (Inr (Some (Num 4242)),
           \<lparr>nowMs = 1230, files = (\<lambda>_. Absent)(''/data/server.pid'' := Content ''4242''),
            versionCalls = 2, waitCalls = 0,
            log = [FsReadFile ''/data/server.pid'', ClientGetVersion 8000, ClientGetVersion 8000]\<rparr>)"
  by (simp add: checkAlive_def getServerPID_unfold pidPath_manager parseInt10_4242
        isRunning_def nowSeconds_def secondsAt_def
        isSameVersion_def isSameVersion_loop.simps client_getVersion_def emit_def)

lemma noLockFile_checkAlive_run:
  "checkAlive E manager port noLockFile = Some (Inr None, emit (FsReadFile ''/data/server.pid'') noLockFile)"
  by (simp add: checkAlive_def getServerPID_unfold pidPath_manager)

lemma host_start_run:
  "start (host ''1.4.0'') manager 8000 \<lparr>cmd = ''neo-one'', firstArgs = [''--dir'', ''/data'']\<rparr>
      (Some (Callback ''notify'')) noLockFile
   = Some (Inr \<lparr>pid = Num 5000, started = True\<rparr>,
           \<lparr>nowMs = 1123, files = (\<lambda>_. Absent), versionCalls = 0, waitCalls = 2,
            log = [FsReadFile ''/data/server.pid'', Called (Callback ''notify''),
                   Spawn ''neo-one'' [''--dir'', ''/data'', ''start'', ''server''] True ''ignore'',
                   Unref (Num 5000), ClientWait 8000 1000, SetTimeout 100, ClientWait 8000 1000]\<rparr>)"
  by (simp add: start_def checkAlive_def getServerPID_unfold pidPath_manager call_def spawn_def
        unref_def waitRunning_def waitRunning_loop.simps isRunning_def nowSeconds_def secondsAt_def
        waitReachable_def waitReachable_loop.simps client_wait_def setTimeout_def emit_def)



subsection \<open>\<^verbatim>\<open>start\<close>\<close>

text \<open>
  C5. When \<^verbatim>\<open>checkAlive\<close> returns an owner, \<^verbatim>\<open>start\<close> returns that owner with
  \<^verbatim>\<open>started: false\<close> and does nothing beyond what \<^verbatim>\<open>checkAlive\<close> did: nothing is
  launched and \<^verbatim>\<open>onStart\<close> is not called.
\<close>

theorem start_owner_found:
  assumes "checkAlive E this port w = Some (Inr (Some p), w1)"
  shows "start E this port bin onStart w = Some (Inr \<lparr>pid = p, started = False\<rparr>, w1)
         \<and> spawned w1 = spawned w \<and> called w1 = called w"
  using assms checkAlive_quiet [OF assms] by (simp add: start_def)

theorem start_owner_found_witness:
  "start (host ''1.4.0'') manager 8000 \<lparr>cmd = ''neo-one'', firstArgs = [''--dir'', ''/data'']\<rparr>
      (Some (Callback ''notify'')) (lockFileWith ''4242'')
   = Some (Inr \<lparr>pid = Num 4242, started = False\<rparr>,
           \<lparr>nowMs = 1230, files = (\<lambda>_. Absent)(''/data/server.pid'' := Content ''4242''),
            versionCalls = 2, waitCalls = 0,
            log = [FsReadFile ''/data/server.pid'', ClientGetVersion 8000, ClientGetVersion 8000]\<rparr>)
   \<and> spawned \<lparr>nowMs = 1230, files = (\<lambda>_. Absent)(''/data/server.pid'' := Content ''4242''),
            versionCalls = 2, waitCalls = 0,
            log = [FsReadFile ''/data/server.pid'', ClientGetVersion 8000, ClientGetVersion 8000]\<rparr> = []"
  using start_owner_found [OF host_checkAlive_run] by (simp add: spawned_def)

text \<open>
  C6. When \<^verbatim>\<open>checkAlive\<close> returns \<^verbatim>\<open>null\<close>, \<^verbatim>\<open>start\<close> returns, by a value or by an
  error, and this is all it did after \<^verbatim>\<open>checkAlive\<close>, in this order: it called
  \<^verbatim>\<open>onStart\<close>, when one was given; it launched the binary's command, detached and with
  \<^verbatim>\<open>start server\<close> appended to its arguments, and released the child; it set \<open>j\<close>
  timers of 100 ms, the liveness wait; it made \<open>k\<close> failed probes, each followed by a
  timer of 100 ms, and then, when it returns a value, one probe more, which succeeded:
  the reachability wait. In the whole run \<^verbatim>\<open>onStart\<close> was called once and the launcher
  once.

  The liveness wait is the one of the code: each time it set a timer the child was not
  in the process table and less than 6 seconds had passed, and when it ended the child
  was in the table or more than 5 seconds had passed.

  The reachability wait is the one of the code: every probe was sent less than 31
  seconds after the wait began. A value that \<^verbatim>\<open>start\<close> returns is the child's
  identifier with \<^verbatim>\<open>started: true\<close>. It does return one whenever some probe succeeds
  after failures only and is sent at most 30 seconds after the reachability wait began;
  that probe is then the last one made. (The callback and the launcher are taken to
  return.)
\<close>

theorem start_launches:
  assumes "checkAlive E this port w = Some (Inr None, w1)"
  shows "\<exists>out w' j k. start E this port bin onStart w = Some (out, w')
      \<and> log w' = log w1 @ (case onStart of Some f \<Rightarrow> [Called f] | None \<Rightarrow> [])
                 @ [Spawn (cmd bin) (firstArgs bin @ [''start'', ''server'']) True ''ignore'',
                    Unref (childPid E)]
                 @ replicate j (SetTimeout 100)
                 @ concat (replicate k [ClientWait port 1000, SetTimeout 100])
                 @ (case out of Inl e \<Rightarrow> [] | Inr r \<Rightarrow> [ClientWait port 1000])
      \<and> called w' = called w @ (case onStart of Some f \<Rightarrow> [f] | None \<Rightarrow> [])
      \<and> spawned w' = spawned w @ [(cmd bin, firstArgs bin @ [''start'', ''server''], True, ''ignore'')]
      \<and> (\<forall>i<j. \<not> isRunningAt E (timerAt E (nowMs w1) i) (childPid E)
                \<and> timerAt E (nowMs w1) i < nowMs w1 + 6000)
      \<and> (isRunningAt E (timerAt E (nowMs w1) j) (childPid E)
           \<or> nowMs w1 + 5000 < timerAt E (nowMs w1) j)
      \<and> (\<forall>i<k. snd (waitReply E port (waitCalls w1 + i)) \<noteq> None
                \<and> probeAskedAt E port (waitCalls w1) (timerAt E (nowMs w1) j) i
                     < timerAt E (nowMs w1) j + 31000)
      \<and> (\<forall>r. out = Inr r \<longrightarrow>
            r = \<lparr>pid = childPid E, started = True\<rparr>
            \<and> snd (waitReply E port (waitCalls w1 + k)) = None
            \<and> probeAskedAt E port (waitCalls w1) (timerAt E (nowMs w1) j) k
                 < timerAt E (nowMs w1) j + 31000)
      \<and> (\<forall>n. (\<forall>i<n. snd (waitReply E port (waitCalls w1 + i)) \<noteq> None)
              \<and> snd (waitReply E port (waitCalls w1 + n)) = None
              \<and> probeAskedAt E port (waitCalls w1) (timerAt E (nowMs w1) j) n
                   \<le> timerAt E (nowMs w1) j + 30000
            \<longrightarrow> out = Inr \<lparr>pid = childPid E, started = True\<rparr> \<and> k = n)"
proof -
  let ?on = "case onStart of Some f \<Rightarrow> [Called f] | None \<Rightarrow> []"
  let ?sp = "Spawn (cmd bin) (firstArgs bin @ [''start'', ''server'']) True ''ignore''"
  from start_launch_run [OF assms, of bin onStart] obtain out w' j k where
    run: "start E this port bin onStart w = Some (out, w')"
    and l: "log w' = log w1 @ ?on @ [?sp, Unref (childPid E)]
           @ replicate j (SetTimeout 100)
           @ concat (replicate k [ClientWait port 1000, SetTimeout 100])
           @ (case out of Inl e \<Rightarrow> [] | Inr r \<Rightarrow> [ClientWait port 1000])"
    and before: "\<forall>i<j. \<not> isRunningAt E (timerAt E (nowMs w1) i) (childPid E)
               \<and> timerAt E (nowMs w1) i < nowMs w1 + 6000"
    and last: "isRunningAt E (timerAt E (nowMs w1) j) (childPid E)
          \<or> nowMs w1 + 5000 < timerAt E (nowMs w1) j"
    and fails: "\<forall>i<k. snd (waitReply E port (waitCalls w1 + i)) \<noteq> None
               \<and> probeAskedAt E port (waitCalls w1) (timerAt E (nowMs w1) j) i
                    < timerAt E (nowMs w1) j + 31000"
    and ends: "(out = Inr \<lparr>pid = childPid E, started = True\<rparr>
           \<and> snd (waitReply E port (waitCalls w1 + k)) = None
           \<and> probeAskedAt E port (waitCalls w1) (timerAt E (nowMs w1) j) k
                < timerAt E (nowMs w1) j + 31000)
        \<or> (0 < k
           \<and> timerAt E (nowMs w1) j + 30000
                < probeAskedAt E port (waitCalls w1) (timerAt E (nowMs w1) j) k
           \<and> (\<exists>e. snd (waitReply E port (waitCalls w1 + (k - 1))) = Some e \<and> out = Inl e))"
    by blast
  have quiet: "spawned w1 = spawned w" "called w1 = called w"
    using checkAlive_quiet [OF assms] by simp_all
  have c: "called w' = called w @ (case onStart of Some f \<Rightarrow> [f] | None \<Rightarrow> [])"
    unfolding called_def l quiet(2) [unfolded called_def, symmetric]
    by (auto simp: backoff_quiet split: option.splits sum.splits)
  have s: "spawned w' = spawned w @ [(cmd bin, firstArgs bin @ [''start'', ''server''], True, ''ignore'')]"
    unfolding spawned_def l quiet(1) [unfolded spawned_def, symmetric]
    by (auto simp: backoff_quiet split: option.splits sum.splits)
  have f: "\<forall>i<k. snd (waitReply E port (waitCalls w1 + i)) \<noteq> None"
    using fails by blast
  have r: "\<forall>r. out = Inr r \<longrightarrow>
            r = \<lparr>pid = childPid E, started = True\<rparr>
            \<and> snd (waitReply E port (waitCalls w1 + k)) = None
            \<and> probeAskedAt E port (waitCalls w1) (timerAt E (nowMs w1) j) k
                 < timerAt E (nowMs w1) j + 31000"
    using ends by auto
  have ok: "\<forall>n. (\<forall>i<n. snd (waitReply E port (waitCalls w1 + i)) \<noteq> None)
              \<and> snd (waitReply E port (waitCalls w1 + n)) = None
              \<and> probeAskedAt E port (waitCalls w1) (timerAt E (nowMs w1) j) n
                   \<le> timerAt E (nowMs w1) j + 30000
            \<longrightarrow> out = Inr \<lparr>pid = childPid E, started = True\<rparr> \<and> k = n"
  proof (intro allI impI)
    fix n
    assume n: "(\<forall>i<n. snd (waitReply E port (waitCalls w1 + i)) \<noteq> None)
              \<and> snd (waitReply E port (waitCalls w1 + n)) = None
              \<and> probeAskedAt E port (waitCalls w1) (timerAt E (nowMs w1) j) n
                   \<le> timerAt E (nowMs w1) j + 30000"
    then have none: "snd (waitReply E port (waitCalls w1 + n)) = None"
      and early: "probeAskedAt E port (waitCalls w1) (timerAt E (nowMs w1) j) n
                   \<le> timerAt E (nowMs w1) j + 30000"
      by simp_all
    have "\<not> n < k"
    proof
      assume "n < k"
      from f [rule_format, OF this] none show False by simp
    qed
    then have kn: "k \<le> n" by simp
    from ends show "out = Inr \<lparr>pid = childPid E, started = True\<rparr> \<and> k = n"
    proof
      assume good: "out = Inr \<lparr>pid = childPid E, started = True\<rparr>
           \<and> snd (waitReply E port (waitCalls w1 + k)) = None
           \<and> probeAskedAt E port (waitCalls w1) (timerAt E (nowMs w1) j) k
                < timerAt E (nowMs w1) j + 31000"
      have "\<not> k < n"
      proof
        assume "k < n"
        with n have "snd (waitReply E port (waitCalls w1 + k)) \<noteq> None" by simp
        with good show False by simp
      qed
      with kn good show ?thesis by simp
    next
      assume bad: "0 < k
           \<and> timerAt E (nowMs w1) j + 30000
                < probeAskedAt E port (waitCalls w1) (timerAt E (nowMs w1) j) k
           \<and> (\<exists>e. snd (waitReply E port (waitCalls w1 + (k - 1))) = Some e \<and> out = Inl e)"
      then have late: "timerAt E (nowMs w1) j + 30000
                < probeAskedAt E port (waitCalls w1) (timerAt E (nowMs w1) j) k" by simp
      from probeAskedAt_mono [OF kn, of E port "waitCalls w1" "timerAt E (nowMs w1) j"] late early
      have False by linarith
      then show ?thesis ..
    qed
  qed
  show ?thesis
    by (rule exI[of _ out], rule exI[of _ w'], rule exI[of _ j], rule exI[of _ k])
       (intro conjI run l c s before last fails r ok)
qed

theorem start_launches_witness:
  "\<exists>w'. start (host ''1.4.0'') manager 8000 \<lparr>cmd = ''neo-one'', firstArgs = [''--dir'', ''/data'']\<rparr>
        (Some (Callback ''notify'')) noLockFile
      = Some (Inr \<lparr>pid = Num 5000, started = True\<rparr>, w')
    \<and> called w' = [Callback ''notify'']
    \<and> spawned w' = [(''neo-one'', [''--dir'', ''/data'', ''start'', ''server''], True, ''ignore'')]"
proof -
  from start_launches [OF noLockFile_checkAlive_run,
      of "host ''1.4.0''" 8000 "\<lparr>cmd = ''neo-one'', firstArgs = [''--dir'', ''/data'']\<rparr>"
         "Some (Callback ''notify'')"]
  obtain out w' where
    "start (host ''1.4.0'') manager 8000 \<lparr>cmd = ''neo-one'', firstArgs = [''--dir'', ''/data'']\<rparr>
        (Some (Callback ''notify'')) noLockFile = Some (out, w')"
    "called w' = called noLockFile @ (case Some (Callback ''notify'') of Some f \<Rightarrow> [f] | None \<Rightarrow> [])"
    "spawned w' = spawned noLockFile
        @ [(cmd \<lparr>cmd = ''neo-one'', firstArgs = [''--dir'', ''/data'']\<rparr>,
            firstArgs \<lparr>cmd = ''neo-one'', firstArgs = [''--dir'', ''/data'']\<rparr> @ [''start'', ''server''],
            True, ''ignore'')]"
    by blast
  then show ?thesis
    by (simp add: host_start_run called_def spawned_def)
qed



text \<open>
  C8. A run of \<^verbatim>\<open>start\<close> that returns, by a value or by an error, has written no file,
  and has left the file system as it was or has removed the lock file: \<^verbatim>\<open>start\<close> never
  creates or overwrites it. (\<^verbatim>\<open>writePID\<close> is the only operation of the module that
  writes, and \<^verbatim>\<open>start\<close> does not call it.)
\<close>

theorem start_never_writes:
  assumes "start E this port bin onStart w = Some (out, w')"
  shows "written w' = written w
         \<and> (files w' = files w \<or> files w' = (files w)(pidPath this := Absent))"
proof (cases "checkAlive E this port w")
  case None
  with assms show ?thesis by (simp add: start_def)
next
  case (Some a)
  then obtain r w1 where ca: "checkAlive E this port w = Some (r, w1)" by (cases a) auto
  have w1: "written w1 = written w"
    "files w1 = files w \<or> files w1 = (files w)(pidPath this := Absent)"
    using checkAlive_quiet [OF ca] checkAlive_trace [OF ca] by auto
  show ?thesis
  proof (cases "r = Inr None")
    case False
    with assms ca have "w' = w1"
      by (auto simp: start_def split: sum.splits option.splits)
    with w1 show ?thesis by simp
  next
    case True
    from start_launch_run [OF ca [unfolded True], of bin onStart] obtain out2 w2 j k where
      run: "start E this port bin onStart w = Some (out2, w2)"
      and f2: "files w2 = files w1"
      and l2: "log w2 = log w1 @ (case onStart of Some f \<Rightarrow> [Called f] | None \<Rightarrow> [])
                 @ [Spawn (cmd bin) (firstArgs bin @ [''start'', ''server'']) True ''ignore'',
                    Unref (childPid E)]
                 @ replicate j (SetTimeout 100)
                 @ concat (replicate k [ClientWait port 1000, SetTimeout 100])
                 @ (case out2 of Inl e \<Rightarrow> [] | Inr r \<Rightarrow> [ClientWait port 1000])"
      by blast
    from run assms have same: "w2 = w'" by simp
    from f2 same have f: "files w' = files w1" by simp
    have "written w2 = written w1"
      unfolding written_def l2
      by (auto simp: backoff_quiet split: option.splits sum.splits)
    with f w1 same show ?thesis by simp
  qed
qed

theorem start_never_writes_witness:
  "written \<lparr>nowMs = 1123, files = (\<lambda>_. Absent), versionCalls = 0, waitCalls = 2,
            log = [FsReadFile ''/data/server.pid'', Called (Callback ''notify''),
                   Spawn ''neo-one'' [''--dir'', ''/data'', ''start'', ''server''] True ''ignore'',
                   Unref (Num 5000), ClientWait 8000 1000, SetTimeout 100, ClientWait 8000 1000]\<rparr>
     = written noLockFile"
  using start_never_writes [OF host_start_run] by simp

end
